theory Spec2Isabelle
  imports Complex_Main "HOL-Library.Multiset"
begin

section \<open>Dense tensors and the tensor operations the notebook calls\<close>

text \<open>
  The notebook \<^verbatim>\<open>Graph Neural Networks-solution.ipynb\<close> works on two-dimensional float
  tensors. A 2-D tensor is modelled as the list of its rows and a 1-D tensor as a list;
  entries are real numbers, so every statement below is about exact arithmetic, not about
  rounding. A tensor without rows carries no column count in this representation
  (\<open>ncols [] = 0\<close>). Exceptions are values: every operation that can raise returns
  \<open>error + result\<close>, with \<open>Inl\<close> the exception.
\<close>

type_synonym vec = "real list"
type_synonym tensor = "real list list"

datatype error = RuntimeError | IndexError | LinAlgError

definition nrows :: "tensor \<Rightarrow> nat" where
  "nrows M = length M"

definition ncols :: "tensor \<Rightarrow> nat" where
  "ncols M = (case M of [] \<Rightarrow> 0 | r # _ \<Rightarrow> length r)"

text \<open>\<open>mat r c M\<close>: the tensor \<open>M\<close> has shape \<open>(r, c)\<close>.\<close>

definition mat :: "nat \<Rightarrow> nat \<Rightarrow> tensor \<Rightarrow> bool" where
  "mat r c M \<longleftrightarrow> length M = r \<and> list_all (\<lambda>row. length row = c) M"

text \<open>\<^verbatim>\<open>torch.eye(n)\<close>\<close>

definition eye :: "nat \<Rightarrow> tensor" where
  "eye n = map (\<lambda>i. map (\<lambda>j. if i = j then 1 else 0) [0..<n]) [0..<n]"

text \<open>
  \<^verbatim>\<open>a + b\<close> on 2-D tensors, with broadcasting: in each dimension the sizes are equal or
  one of them is 1 (that operand is then repeated); anything else raises RuntimeError.
\<close>

definition bdim :: "nat \<Rightarrow> nat \<Rightarrow> nat option" where
  "bdim a b = (if a = b then Some a else if a = 1 then Some b
               else if b = 1 then Some a else None)"

definition bidx :: "nat \<Rightarrow> nat \<Rightarrow> nat" where
  "bidx n i = (if n = 1 then 0 else i)"

definition tadd :: "tensor \<Rightarrow> tensor \<Rightarrow> error + tensor" where
  "tadd M N =
     (case bdim (nrows M) (nrows N) of
        None \<Rightarrow> Inl RuntimeError
      | Some r \<Rightarrow>
         (case bdim (ncols M) (ncols N) of
            None \<Rightarrow> Inl RuntimeError
          | Some c \<Rightarrow>
              Inr (map (\<lambda>i. map (\<lambda>j. M ! bidx (nrows M) i ! bidx (ncols M) j
                                      + N ! bidx (nrows N) i ! bidx (ncols N) j) [0..<c])
                       [0..<r])))"

text \<open>\<^verbatim>\<open>M.sum(axis=1)\<close>: the vector of row sums.\<close>

definition sum_axis1 :: "tensor \<Rightarrow> vec" where
  "sum_axis1 M = map sum_list M"

text \<open>\<^verbatim>\<open>torch.diag(v)\<close> on a 1-D tensor: the square matrix with \<open>v\<close> on its diagonal.\<close>

definition diag :: "vec \<Rightarrow> tensor" where
  "diag v = map (\<lambda>i. map (\<lambda>j. if i = j then v ! i else 0) [0..<length v]) [0..<length v]"

text \<open>
  \<^verbatim>\<open>torch.sqrt\<close>, entry by entry. The model is meant for entries that are not negative
  (row sums of an adjacency matrix), where the float square root is not NaN.
\<close>

definition sqrt_t :: "tensor \<Rightarrow> tensor" where
  "sqrt_t M = map (map sqrt) M"

text \<open>\<^verbatim>\<open>torch.matmul\<close> on 2-D tensors: RuntimeError unless every row of the left
  operand is as long as the right operand has rows.\<close>

definition matmul :: "tensor \<Rightarrow> tensor \<Rightarrow> error + tensor" where
  "matmul M N =
     (if list_all (\<lambda>row. length row = nrows N) M
      then Inr (map (\<lambda>row. map (\<lambda>j. sum_list (map (\<lambda>k. row ! k * N ! k ! j) [0..<nrows N]))
                              [0..<ncols N]) M)
      else Inl RuntimeError)"

text \<open>
  \<^verbatim>\<open>torch.inverse\<close>. The notebook applies it to one kind of argument only,
  \<^verbatim>\<open>torch.sqrt(torch.diag(...))\<close>, which is a diagonal matrix. The inverse of a diagonal
  matrix is the diagonal matrix of the reciprocals, and it exists exactly when no diagonal
  entry is zero; on a singular matrix \<^verbatim>\<open>torch.inverse\<close> raises LinAlgError, on a
  non-square one RuntimeError. The definition is written for diagonal arguments (lemmas
  \<open>inverse_t_right\<close>, \<open>inverse_t_left\<close> and \<open>inverse_t_singular\<close> below justify it).
\<close>

definition is_diag :: "tensor \<Rightarrow> bool" where
  "is_diag M \<longleftrightarrow>
     list_all (\<lambda>i. list_all (\<lambda>j. i = j \<or> M ! i ! j = 0) [0..<length (M ! i)]) [0..<length M]"

definition inverse_t :: "tensor \<Rightarrow> error + tensor" where
  "inverse_t M =
     (if \<not> list_all (\<lambda>row. length row = nrows M) M then Inl RuntimeError
      else if list_ex (\<lambda>i. M ! i ! i = 0) [0..<nrows M] then Inl LinAlgError
      else Inr (diag (map (\<lambda>i. 1 / M ! i ! i) [0..<nrows M])))"

section \<open>The linear layer \<^verbatim>\<open>nn.Linear\<close>\<close>

text \<open>
  \<^verbatim>\<open>nn.Linear(input_dim, output_dim)\<close> owns a weight of shape
  \<open>(out_features, in_features)\<close> and, by default, a bias of length \<open>out_features\<close>; both
  are drawn at random when the layer is built and changed by the optimiser afterwards, so
  they are parameters here. Applied to \<open>x\<close> it returns \<^verbatim>\<open>x @ weight.T + bias\<close>
  (the bias is added to every row), and raises RuntimeError when the rows of \<open>x\<close> do not
  have \<open>in_features\<close> entries.
\<close>

record Linear =
  in_features :: nat
  out_features :: nat
  weight :: tensor
  bias :: vec

definition Linear_forward :: "Linear \<Rightarrow> tensor \<Rightarrow> error + tensor" where
  "Linear_forward L x =
     (if list_all (\<lambda>row. length row = in_features L) x
      then Inr (map (\<lambda>row. map (\<lambda>c. sum_list (map (\<lambda>k. row ! k * weight L ! c ! k)
                                                    [0..<in_features L])
                                     + bias L ! c)
                              [0..<out_features L]) x)
      else Inl RuntimeError)"

section \<open>The raw-sum layer (first \<^verbatim>\<open>GCNLayer\<close> of the notebook)\<close>

text \<open>
  \<^verbatim>\<open>
  def __init__(self, input_dim, output_dim, A):
      self.input_dim = input_dim
      self.output_dim = output_dim
      self.A = A
      self.linear = nn.Linear(input_dim, output_dim)

  def forward(self, x):
      x = torch.matmul(self.A, x)
      x = self.linear(x)
      return x
  \<close>
\<close>

record GCNLayer =
  input_dim :: nat
  output_dim :: nat
  self_A :: tensor
  linear_layer :: Linear

definition GCNLayer_init :: "nat \<Rightarrow> nat \<Rightarrow> tensor \<Rightarrow> tensor \<Rightarrow> vec \<Rightarrow> GCNLayer" where
  "GCNLayer_init idim odim A W b =
     \<lparr>input_dim = idim, output_dim = odim, self_A = A,
      linear_layer = \<lparr>in_features = idim, out_features = odim, weight = W, bias = b\<rparr>\<rparr>"

definition GCNLayer_forward :: "GCNLayer \<Rightarrow> tensor \<Rightarrow> error + tensor" where
  "GCNLayer_forward l x =
     (case matmul (self_A l) x of
        Inl e \<Rightarrow> Inl e
      | Inr y \<Rightarrow> Linear_forward (linear_layer l) y)"

section \<open>The symmetric-normalised layer (second \<^verbatim>\<open>GCNLayer\<close> of the notebook)\<close>

text \<open>
  \<^verbatim>\<open>
  def __init__(self, input_dim, output_dim, A):
      self.input_dim = input_dim
      self.output_dim = output_dim
      self.A = A
      self.adj_norm = adj + torch.eye(A.shape[0])
      self.degree = torch.inverse(torch.sqrt(torch.diag(adj.sum(axis=1))))
      self.adj_norm = torch.matmul(torch.matmul(self.degree, self.adj_norm), self.degree)
      self.linear = nn.Linear(input_dim, output_dim)

  def forward(self, x):
      x = torch.matmul(self.adj_norm, x)
      x = self.linear(x)
      return x
  \<close>
  The constructor reads the notebook's global variable \<^verbatim>\<open>adj\<close>, not its argument
  \<^verbatim>\<open>A\<close>, of which it uses the row count only; the global is the first parameter of the
  model. The notebook builds the layer with \<^verbatim>\<open>A=adj\<close>. The degrees are the row sums of
  \<^verbatim>\<open>adj\<close> itself, taken before the identity is added.
\<close>

record GCNLayer_norm = GCNLayer +
  adj_norm :: tensor
  degree :: tensor

definition GCNLayer_norm_init ::
  "tensor \<Rightarrow> nat \<Rightarrow> nat \<Rightarrow> tensor \<Rightarrow> tensor \<Rightarrow> vec \<Rightarrow> error + GCNLayer_norm" where
  "GCNLayer_norm_init adj idim odim A W b =
     (case tadd adj (eye (nrows A)) of
        Inl e \<Rightarrow> Inl e
      | Inr an \<Rightarrow>
     (case inverse_t (sqrt_t (diag (sum_axis1 adj))) of
        Inl e \<Rightarrow> Inl e
      | Inr deg \<Rightarrow>
     (case matmul deg an of
        Inl e \<Rightarrow> Inl e
      | Inr t \<Rightarrow>
     (case matmul t deg of
        Inl e \<Rightarrow> Inl e
      | Inr an' \<Rightarrow>
          Inr \<lparr>input_dim = idim, output_dim = odim, self_A = A,
               linear_layer = \<lparr>in_features = idim, out_features = odim,
                                weight = W, bias = b\<rparr>,
               adj_norm = an', degree = deg\<rparr>))))"

definition GCNLayer_norm_forward :: "GCNLayer_norm \<Rightarrow> tensor \<Rightarrow> error + tensor" where
  "GCNLayer_norm_forward l x =
     (case matmul (adj_norm l) x of
        Inl e \<Rightarrow> Inl e
      | Inr y \<Rightarrow> Linear_forward (linear_layer l) y)"

text \<open>Building the layer and applying it once, as the notebook's model does.\<close>

definition GCNLayer_norm_apply ::
  "tensor \<Rightarrow> nat \<Rightarrow> nat \<Rightarrow> tensor \<Rightarrow> tensor \<Rightarrow> vec \<Rightarrow> tensor \<Rightarrow> error + tensor" where
  "GCNLayer_norm_apply adj idim odim A W b x =
     (case GCNLayer_norm_init adj idim odim A W b of
        Inl e \<Rightarrow> Inl e
      | Inr l \<Rightarrow> GCNLayer_norm_forward l x)"

text \<open>
  The normalisation in the words of the specification: \<open>D^{-1/2} (A + I) D^{-1/2}\<close>, with
  \<open>D\<close> the diagonal degree matrix of \<open>A + I\<close>, \<open>D[i][i] = \<Sum>j. (A + I)[i][j]\<close>.
\<close>

definition spec_self_loops :: "tensor \<Rightarrow> nat \<Rightarrow> nat \<Rightarrow> real" where
  "spec_self_loops A i j = A ! i ! j + (if i = j then 1 else 0)"

definition spec_degree :: "tensor \<Rightarrow> nat \<Rightarrow> real" where
  "spec_degree A i = sum_list (map (\<lambda>j. spec_self_loops A i j) [0..<length A])"

definition spec_adj_norm :: "tensor \<Rightarrow> tensor" where
  "spec_adj_norm A =
     map (\<lambda>i. map (\<lambda>j. (1 / sqrt (spec_degree A i)) * spec_self_loops A i j
                         * (1 / sqrt (spec_degree A j)))
               [0..<length A]) [0..<length A]"

section \<open>The dense adjacency matrix\<close>

text \<open>
  \<^verbatim>\<open>adj = to_dense_adj(data.edge_index)[0]\<close>. \<^verbatim>\<open>to_dense_adj\<close> is a function of the
  torch_geometric library. Called with the edge index alone it takes the number of nodes
  to be the largest index plus one and scatter-adds a one at position \<open>(source, target)\<close>
  for every column of the edge index, starting from the zero matrix. The edge index is
  modelled as the list of its columns.
\<close>

type_synonym edge_index = "(nat \<times> nat) list"

definition max_num_nodes :: "edge_index \<Rightarrow> nat" where
  "max_num_nodes es = (if es = [] then 0 else fold max (map fst es @ map snd es) 0 + 1)"

fun scatter_ones :: "tensor \<Rightarrow> edge_index \<Rightarrow> tensor" where
  "scatter_ones M [] = M"
| "scatter_ones M ((i, j) # es) = scatter_ones (M[i := (M ! i)[j := M ! i ! j + 1]]) es"

definition to_dense_adj :: "edge_index \<Rightarrow> tensor" where
  "to_dense_adj es =
     scatter_ones (replicate (max_num_nodes es) (replicate (max_num_nodes es) 0)) es"

section \<open>Graph-level pooling\<close>

text \<open>
  The batched node matrix may have no rows (shape \<open>(0, d)\<close>), and a list of rows alone
  would then forget the width \<open>d\<close>. The tensors of the pooling stage therefore carry their
  width: \<open>width x\<close> is \<^verbatim>\<open>x.shape[1]\<close> and \<open>entries x\<close> the list of the \<^verbatim>\<open>x.shape[0]\<close> rows.
\<close>

record shaped =
  width :: nat
  entries :: tensor

text \<open>
  \<^verbatim>\<open>
  def extract(x, idx, slices):
      start, end = int(slices[idx]), int(slices[idx + 1])
      return x.narrow(0, start, end-start).sum(axis=0).reshape(1, -1)
  \<close>
  \<^verbatim>\<open>x.narrow(0, start, length)\<close> raises when the length is negative, when the start is
  outside \<open>[-n, n]\<close> for a tensor of \<open>n\<close> rows, and when start plus length exceeds \<open>n\<close>; a
  negative start counts from the end. \<^verbatim>\<open>sum(axis=0)\<close> gives the vector of the \<open>d\<close> column
  sums (zeros when no row is selected) and \<^verbatim>\<open>reshape(1, -1)\<close> makes it a tensor of shape
  \<open>(1, d)\<close>.
\<close>

definition narrow0 :: "tensor \<Rightarrow> int \<Rightarrow> int \<Rightarrow> error + tensor" where
  "narrow0 x start len =
     (let n = int (length x) in
      if len < 0 then Inl RuntimeError
      else if start < - n \<or> n < start then Inl IndexError
      else let s = (if start < 0 then start + n else start) in
           if n - len < s then Inl RuntimeError
           else Inr (take (nat len) (drop (nat s) x)))"

definition sum_axis0 :: "nat \<Rightarrow> tensor \<Rightarrow> vec" where
  "sum_axis0 d M = map (\<lambda>j. sum_list (map (\<lambda>row. row ! j) M)) [0..<d]"

definition reshape_row :: "vec \<Rightarrow> shaped" where
  "reshape_row v = \<lparr>width = length v, entries = [v]\<rparr>"

definition extract_t :: "shaped \<Rightarrow> nat \<Rightarrow> int list \<Rightarrow> error + shaped" where
  "extract_t x idx slices =
     (if length slices \<le> idx + 1 then Inl IndexError
      else let start = slices ! idx; end = slices ! (idx + 1) in
           case narrow0 (entries x) start (end - start) of
             Inl e \<Rightarrow> Inl e
           | Inr y \<Rightarrow> Inr (reshape_row (sum_axis0 (width x) y)))"

text \<open>
  The list comprehension evaluates its elements in order and the first exception ends it;
  \<^verbatim>\<open>torch.concat\<close> raises on an empty list and on tensors of different widths.
\<close>

fun collect :: "(error + 'a) list \<Rightarrow> error + 'a list" where
  "collect [] = Inr []"
| "collect (Inl e # rs) = Inl e"
| "collect (Inr v # rs) = (case collect rs of Inl e \<Rightarrow> Inl e | Inr vs \<Rightarrow> Inr (v # vs))"

definition concat_t :: "shaped list \<Rightarrow> error + shaped" where
  "concat_t ts =
     (case ts of
        [] \<Rightarrow> Inl RuntimeError
      | t # _ \<Rightarrow> if list_all (\<lambda>u. width u = width t) ts
                 then Inr \<lparr>width = width t, entries = concat (map entries ts)\<rparr>
                 else Inl RuntimeError)"

text \<open>
  The pooling line of \<^verbatim>\<open>GNN.forward\<close>:
  \<^verbatim>\<open>torch.concat([extract(x, idx, ptr) for idx in range(len(ptr)-1)], axis=0)\<close>
\<close>

definition pool :: "shaped \<Rightarrow> int list \<Rightarrow> error + shaped" where
  "pool x ptr =
     (case collect (map (\<lambda>idx. extract_t x idx ptr) [0..<length ptr - 1]) of
        Inl e \<Rightarrow> Inl e
      | Inr ts \<Rightarrow> concat_t ts)"

text \<open>
  \<^verbatim>\<open>
  def forward(self, x, edge_index, ptr):
      x = self.graph_layer(x, edge_index)
      x = F.relu(x)
      x = torch.concat([extract(x, idx, ptr) for idx in range(len(ptr)-1)], axis=0)
      x = self.linear(x)
      x = F.leaky_relu(x)
      return x.flatten()
  \<close>
  The graph layer is a layer of the library (\<^verbatim>\<open>GCNConv\<close> in the notebook) and a parameter
  of the model. The pooled tensor has at least one row, so the linear layer takes its rows.
\<close>

definition relu :: "tensor \<Rightarrow> tensor" where
  "relu M = map (map (\<lambda>v. max 0 v)) M"

definition leaky_relu :: "tensor \<Rightarrow> tensor" where
  "leaky_relu M = map (map (\<lambda>v. if 0 \<le> v then v else v / 100)) M"

definition GNN_forward ::
  "(shaped \<Rightarrow> edge_index \<Rightarrow> error + shaped) \<Rightarrow> Linear \<Rightarrow> shaped \<Rightarrow> edge_index \<Rightarrow> int list
     \<Rightarrow> error + vec" where
  "GNN_forward graph_layer lin x ei ptr =
     (case graph_layer x ei of
        Inl e \<Rightarrow> Inl e
      | Inr x1 \<Rightarrow>
     (case pool \<lparr>width = width x1, entries = relu (entries x1)\<rparr> ptr of
        Inl e \<Rightarrow> Inl e
      | Inr x2 \<Rightarrow>
     (case Linear_forward lin (entries x2) of
        Inl e \<Rightarrow> Inl e
      | Inr x3 \<Rightarrow> Inr (concat (leaky_relu x3)))))"

section \<open>Notions used to state the properties\<close>

text \<open>
  The raw-sum layer in the words of the specification: \<open>H = (A \<cdot> X) \<cdot> W\<close>, with \<open>W\<close> of
  shape \<open>input_dim \<times> output_dim\<close> (the transpose of the weight \<^verbatim>\<open>nn.Linear\<close> stores).
\<close>

definition spec_raw_sum :: "tensor \<Rightarrow> tensor \<Rightarrow> tensor \<Rightarrow> error + tensor" where
  "spec_raw_sum A X W = (case matmul A X of Inl e \<Rightarrow> Inl e | Inr Y \<Rightarrow> matmul Y W)"

text \<open>\<open>transpose_t c M\<close> is the transpose of a tensor \<open>M\<close> with \<open>c\<close> columns.\<close>

definition transpose_t :: "nat \<Rightarrow> tensor \<Rightarrow> tensor" where
  "transpose_t c M = map (\<lambda>j. map (\<lambda>row. row ! j) M) [0..<c]"

text \<open>Adding the vector \<open>b\<close> to every row of \<open>Y\<close>.\<close>

definition add_bias :: "tensor \<Rightarrow> vec \<Rightarrow> tensor" where
  "add_bias Y b = map (\<lambda>row. map (\<lambda>j. row ! j + b ! j) [0..<length b]) Y"

text \<open>The neighbours of node \<open>i\<close> in a 0/1 adjacency matrix: the columns holding a one.\<close>

definition neighbours :: "tensor \<Rightarrow> nat \<Rightarrow> nat list" where
  "neighbours A i = filter (\<lambda>k. A ! i ! k = 1) [0..<length (A ! i)]"

definition symmetric_t :: "tensor \<Rightarrow> bool" where
  "symmetric_t M \<longleftrightarrow>
     list_all (\<lambda>i. list_all (\<lambda>j. M ! i ! j = M ! j ! i) [0..<length M]) [0..<length M]"

definition binary_t :: "tensor \<Rightarrow> bool" where
  "binary_t M \<longleftrightarrow> list_all (list_all (\<lambda>v. v = 0 \<or> v = 1)) M"

text \<open>
  A permutation of the node indices \<open>0, \<dots>, n - 1\<close> is the list \<open>p\<close> of the images; node \<open>i\<close>
  of the permuted graph is node \<open>p ! i\<close> of the original. \<open>permute_rows p X\<close> is \<open>P X\<close> and
  \<open>permute_sym p A\<close> is \<open>P A P\<^sup>T\<close>.
\<close>

definition is_perm :: "nat list \<Rightarrow> nat \<Rightarrow> bool" where
  "is_perm p n \<longleftrightarrow> length p = n \<and> distinct p \<and> list_all (\<lambda>i. i < n) p"

definition permute_rows :: "nat list \<Rightarrow> tensor \<Rightarrow> tensor" where
  "permute_rows p X = map (\<lambda>i. X ! i) p"

definition permute_sym :: "nat list \<Rightarrow> tensor \<Rightarrow> tensor" where
  "permute_sym p A = map (\<lambda>i. map (\<lambda>j. A ! i ! j) p) p"

text \<open>The ring on five nodes, every edge stored in both directions.\<close>

definition ring5 :: tensor where
  "ring5 = [[0, 1, 0, 0, 1],
            [1, 0, 1, 0, 0],
            [0, 1, 0, 1, 0],
            [0, 0, 1, 0, 1],
            [1, 0, 0, 1, 0]]"

definition ones51 :: tensor where
  "ones51 = [[1], [1], [1], [1], [1]]"

section \<open>Facts about the tensor operations\<close>

lemma mat_length: "mat r c M \<Longrightarrow> length M = r"
  by (simp add: mat_def)

lemma mat_row: "mat r c M \<Longrightarrow> i < r \<Longrightarrow> length (M ! i) = c"
  by (simp add: mat_def list_all_length)

lemma mat_ncols: "mat r c M \<Longrightarrow> 0 < r \<Longrightarrow> ncols M = c"
  by (cases M) (auto simp: mat_def ncols_def)

lemma mat_map_upt: "mat r c (map (\<lambda>i. map (f i) [0..<c]) [0..<r])"
  by (simp add: mat_def list_all_length)

lemma map_upt_cong: "(\<And>i. i < n \<Longrightarrow> f i = g i) \<Longrightarrow> map f [0..<n] = map g [0..<n]"
  by simp

lemma sum_list_upt_cong:
  "(\<And>k. k < n \<Longrightarrow> f k = g k) \<Longrightarrow> sum_list (map f [0..<n]) = sum_list (map g [0..<n])"
  by (rule arg_cong [where f = sum_list]) simp

lemma sum_list_delta_l:
  fixes a :: real
  shows "i < n \<Longrightarrow> sum_list (map (\<lambda>k. (if i = k then a else 0) * f k) [0..<n]) = a * f i"
  by (simp add: interv_sum_list_conv_sum_set_nat if_distrib [of "\<lambda>x. x * _"] cong: if_cong)

lemma sum_list_delta_r:
  fixes a :: real
  shows "j < n \<Longrightarrow> sum_list (map (\<lambda>k. f k * (if k = j then a else 0)) [0..<n]) = f j * a"
  by (simp add: interv_sum_list_conv_sum_set_nat if_distrib [of "\<lambda>x. _ * x"] cong: if_cong)

lemma bidx_less: "i < n \<Longrightarrow> bidx n i = i"
  by (auto simp: bidx_def)

lemma bdim_same: "bdim a a = Some a"
  by (simp add: bdim_def)

lemma ncols_map_upt: "ncols (map (\<lambda>i. map (f i) [0..<c]) [0..<r]) = (if r = 0 then 0 else c)"
  by (cases r) (simp_all add: ncols_def upt_conv_Cons del: upt_Suc)

lemma eye_nth: "i < n \<Longrightarrow> j < n \<Longrightarrow> eye n ! i ! j = (if i = j then 1 else 0)"
  by (simp add: eye_def)

lemma diag_nth:
  "i < length u \<Longrightarrow> k < length u \<Longrightarrow> diag u ! i ! k = (if i = k then u ! i else 0)"
  by (simp add: diag_def)

lemma ncols_eye: "ncols (eye n) = n"
  by (simp add: eye_def ncols_map_upt)

lemma ncols_diag: "ncols (diag u) = length u"
  by (simp add: diag_def ncols_map_upt)

lemma length_diag: "length (diag u) = length u"
  by (simp add: diag_def)

lemma mat_diag: "mat (length u) (length u) (diag u)"
  by (simp add: diag_def mat_def list_all_length)

lemma tadd_eye:
  assumes "mat n n M"
  shows "tadd M (eye n) =
         Inr (map (\<lambda>i. map (\<lambda>j. M ! i ! j + (if i = j then 1 else 0)) [0..<n]) [0..<n])"
proof -
  have nr: "nrows M = n" "nrows (eye n) = n"
    using assms by (simp_all add: nrows_def mat_def eye_def)
  have nc: "ncols M = n"
    using assms by (cases "n = 0") (simp_all add: mat_ncols, simp add: mat_def ncols_def)
  have "tadd M (eye n) =
        Inr (map (\<lambda>i. map (\<lambda>j. M ! bidx n i ! bidx n j + eye n ! bidx n i ! bidx n j)
                            [0..<n]) [0..<n])"
    unfolding tadd_def nr nc ncols_eye bdim_same by simp
  also have "\<dots> = Inr (map (\<lambda>i. map (\<lambda>j. M ! i ! j + (if i = j then 1 else 0)) [0..<n])
                          [0..<n])"
    by (intro arg_cong [where f = Inr] map_upt_cong) (simp add: bidx_less eye_nth)
  finally show ?thesis .
qed

lemma sqrt_t_diag: "sqrt_t (diag v) = diag (map sqrt v)"
  by (simp add: sqrt_t_def diag_def if_distrib [of sqrt] cong: map_cong if_cong)

lemma inverse_t_diag:
  "inverse_t (diag v) =
     (if list_ex (\<lambda>i. v ! i = 0) [0..<length v] then Inl LinAlgError
      else Inr (diag (map (\<lambda>i. 1 / v ! i) [0..<length v])))"
proof -
  have "list_all (\<lambda>row. length row = nrows (diag v)) (diag v)"
    by (simp add: diag_def nrows_def list_all_length)
  moreover have "list_ex (\<lambda>i. diag v ! i ! i = 0) [0..<nrows (diag v)]
                 = list_ex (\<lambda>i. v ! i = 0) [0..<length v]"
    by (auto simp: diag_def nrows_def list_ex_iff)
  moreover have "map (\<lambda>i. 1 / diag v ! i ! i) [0..<nrows (diag v)]
                 = map (\<lambda>i. 1 / v ! i) [0..<length v]"
    by (simp add: diag_def nrows_def)
  ultimately show ?thesis
    by (simp add: inverse_t_def)
qed

lemma matmul_entries:
  assumes "mat r m M" "length N = m"
  shows "matmul M N =
         Inr (map (\<lambda>i. map (\<lambda>j. sum_list (map (\<lambda>k. M ! i ! k * N ! k ! j) [0..<m]))
                            [0..<ncols N]) [0..<r])"
proof -
  have "list_all (\<lambda>row. length row = nrows N) M"
    using assms by (simp add: mat_def nrows_def)
  moreover have "map (\<lambda>row. map (\<lambda>j. sum_list (map (\<lambda>k. row ! k * N ! k ! j) [0..<m]))
                              [0..<ncols N]) M
        = map (\<lambda>i. map (\<lambda>j. sum_list (map (\<lambda>k. M ! i ! k * N ! k ! j) [0..<m]))
                            [0..<ncols N]) [0..<r]"
    using assms by (simp add: mat_def list_eq_iff_nth_eq)
  ultimately show ?thesis
    using assms by (simp add: matmul_def nrows_def)
qed

lemma matmul_diag_left:
  assumes "mat n c M" "length u = n"
  shows "matmul (diag u) M = Inr (map (\<lambda>i. map (\<lambda>j. u ! i * M ! i ! j) [0..<c]) [0..<n])"
proof (cases "n = 0")
  case True
  with assms show ?thesis
    by (simp add: matmul_def diag_def)
next
  case False
  have d: "mat n n (diag u)"
    using assms by (simp add: diag_def mat_def list_all_length)
  have "matmul (diag u) M =
         Inr (map (\<lambda>i. map (\<lambda>j. sum_list (map (\<lambda>k. diag u ! i ! k * M ! k ! j) [0..<n]))
                            [0..<c]) [0..<n])"
    using matmul_entries [OF d, of M] mat_length [OF assms(1)] mat_ncols [OF assms(1)] False
    by simp
  also have "\<dots> = Inr (map (\<lambda>i. map (\<lambda>j. u ! i * M ! i ! j) [0..<c]) [0..<n])"
  proof (intro arg_cong [where f = Inr] map_upt_cong)
    fix i j assume "i < n" "j < c"
    have "sum_list (map (\<lambda>k. diag u ! i ! k * M ! k ! j) [0..<n])
          = sum_list (map (\<lambda>k. (if i = k then u ! i else 0) * M ! k ! j) [0..<n])"
      using \<open>i < n\<close> assms by (intro sum_list_upt_cong) (simp add: diag_nth)
    then show "sum_list (map (\<lambda>k. diag u ! i ! k * M ! k ! j) [0..<n]) = u ! i * M ! i ! j"
      using \<open>i < n\<close> by (simp add: sum_list_delta_l)
  qed
  finally show ?thesis .
qed

lemma matmul_diag_right:
  assumes "mat r n M" "length u = n"
  shows "matmul M (diag u) = Inr (map (\<lambda>i. map (\<lambda>j. M ! i ! j * u ! j) [0..<n]) [0..<r])"
proof -
  have "matmul M (diag u) =
         Inr (map (\<lambda>i. map (\<lambda>j. sum_list (map (\<lambda>k. M ! i ! k * diag u ! k ! j) [0..<n]))
                            [0..<n]) [0..<r])"
    using matmul_entries [OF assms(1), of "diag u"] assms(2) by (simp add: ncols_diag length_diag)
  also have "\<dots> = Inr (map (\<lambda>i. map (\<lambda>j. M ! i ! j * u ! j) [0..<n]) [0..<r])"
  proof (intro arg_cong [where f = Inr] map_upt_cong)
    fix i j assume "i < r" "j < n"
    have "sum_list (map (\<lambda>k. M ! i ! k * diag u ! k ! j) [0..<n])
          = sum_list (map (\<lambda>k. M ! i ! k * (if k = j then u ! j else 0)) [0..<n])"
      using \<open>j < n\<close> assms by (intro sum_list_upt_cong) (auto simp: diag_nth)
    then show "sum_list (map (\<lambda>k. M ! i ! k * diag u ! k ! j) [0..<n]) = M ! i ! j * u ! j"
      using \<open>j < n\<close> by (simp add: sum_list_delta_r)
  qed
  finally show ?thesis .
qed


lemma GCNLayer_norm_init_closed:
  assumes adj: "mat n n adj" and A: "nrows A = n"
  shows "GCNLayer_norm_init adj idim odim A W b =
     (if list_ex (\<lambda>i. sqrt (sum_list (adj ! i)) = 0) [0..<n] then Inl LinAlgError
      else Inr \<lparr>input_dim = idim, output_dim = odim, self_A = A,
                linear_layer = \<lparr>in_features = idim, out_features = odim,
                                 weight = W, bias = b\<rparr>,
                adj_norm = map (\<lambda>i. map (\<lambda>j. 1 / sqrt (sum_list (adj ! i))
                                              * (adj ! i ! j + (if i = j then 1 else 0))
                                              * (1 / sqrt (sum_list (adj ! j))))
                                     [0..<n]) [0..<n],
                degree = diag (map (\<lambda>i. 1 / sqrt (sum_list (adj ! i))) [0..<n])\<rparr>)"
proof -
  define an where "an = map (\<lambda>i. map (\<lambda>j. adj ! i ! j + (if i = j then 1 else 0)) [0..<n]) [0..<n]"
  define u where "u = map (\<lambda>i. 1 / sqrt (sum_list (adj ! i))) [0..<n]"
  define t where "t = map (\<lambda>i. map (\<lambda>j. u ! i * an ! i ! j) [0..<n]) [0..<n]"
  have len: "length adj = n"
    using adj by (rule mat_length)
  have s1: "tadd adj (eye (nrows A)) = Inr an"
    unfolding A an_def using adj by (rule tadd_eye)
  have v: "map sqrt (sum_axis1 adj) = map (\<lambda>i. sqrt (sum_list (adj ! i))) [0..<n]"
    using len by (simp add: sum_axis1_def list_eq_iff_nth_eq)
  have s2: "inverse_t (sqrt_t (diag (sum_axis1 adj))) =
            (if list_ex (\<lambda>i. sqrt (sum_list (adj ! i)) = 0) [0..<n] then Inl LinAlgError
             else Inr (diag u))"
  proof -
    let ?g = "\<lambda>i. sqrt (sum_list (adj ! i))"
    have w: "map (\<lambda>i. 1 / map ?g [0..<n] ! i) [0..<length (map ?g [0..<n])] = u"
      unfolding u_def by simp
    have ex: "list_ex (\<lambda>i. map ?g [0..<n] ! i = 0) [0..<length (map ?g [0..<n])]
              = list_ex (\<lambda>i. ?g i = 0) [0..<n]"
      by (simp add: list_ex_iff)
    show ?thesis
      unfolding sqrt_t_diag v inverse_t_diag w ex by simp
  qed
  have man: "mat n n an"
    unfolding an_def by (rule mat_map_upt)
  have lu: "length u = n"
    by (simp add: u_def)
  have s3: "matmul (diag u) an = Inr t"
    unfolding t_def using man lu by (rule matmul_diag_left)
  have mt: "mat n n t"
    unfolding t_def by (rule mat_map_upt)
  have s4: "matmul t (diag u) =
            Inr (map (\<lambda>i. map (\<lambda>j. t ! i ! j * u ! j) [0..<n]) [0..<n])"
    using mt lu by (rule matmul_diag_right)
  have e: "map (\<lambda>i. map (\<lambda>j. t ! i ! j * u ! j) [0..<n]) [0..<n]
           = map (\<lambda>i. map (\<lambda>j. 1 / sqrt (sum_list (adj ! i))
                                   * (adj ! i ! j + (if i = j then 1 else 0))
                                   * (1 / sqrt (sum_list (adj ! j))))
                          [0..<n]) [0..<n]"
    by (intro map_upt_cong) (simp add: t_def u_def an_def)
  show ?thesis
    unfolding GCNLayer_norm_init_def s1 s2 u_def [symmetric]
    by (simp add: s3 s4 e)
qed

lemma Linear_forward_entries:
  assumes "mat r (in_features L) Y"
  shows "Linear_forward L Y =
         Inr (map (\<lambda>i. map (\<lambda>c. sum_list (map (\<lambda>k. Y ! i ! k * weight L ! c ! k)
                                                [0..<in_features L]) + bias L ! c)
                            [0..<out_features L]) [0..<r])"
proof -
  have "list_all (\<lambda>row. length row = in_features L) Y"
    using assms by (simp add: mat_def)
  moreover have "map (\<lambda>row. map (\<lambda>c. sum_list (map (\<lambda>k. row ! k * weight L ! c ! k)
                                                [0..<in_features L]) + bias L ! c)
                            [0..<out_features L]) Y
        = map (\<lambda>i. map (\<lambda>c. sum_list (map (\<lambda>k. Y ! i ! k * weight L ! c ! k)
                                                [0..<in_features L]) + bias L ! c)
                            [0..<out_features L]) [0..<r]"
    using assms by (simp add: mat_def list_eq_iff_nth_eq)
  ultimately show ?thesis
    by (simp add: Linear_forward_def)
qed

lemma sum_list_indicator:
  fixes a :: "nat \<Rightarrow> real"
  assumes "\<forall>k\<in>set xs. a k = 0 \<or> a k = 1"
  shows "sum_list (map (\<lambda>k. a k * f k) xs) = sum_list (map f (filter (\<lambda>k. a k = 1) xs))"
  using assms by (induction xs) auto

lemma transpose_t_nth:
  "k < c \<Longrightarrow> j < length M \<Longrightarrow> transpose_t c M ! k ! j = M ! j ! k"
  by (simp add: transpose_t_def)

lemma ncols_transpose_t: "0 < c \<Longrightarrow> ncols (transpose_t c M) = length M"
  by (simp add: transpose_t_def ncols_def upt_conv_Cons)

lemma raw_sum_general:
  assumes A: "mat n n A" and X: "mat n d X" and W: "mat odim d W"
    and b: "length b = odim" and d: "0 < d"
  shows "GCNLayer_forward (GCNLayer_init d odim A W b) X
         = map_sum id (\<lambda>Y. add_bias Y b) (spec_raw_sum A X (transpose_t d W))"
proof (cases "n = 0")
  case True
  with A X show ?thesis
    by (simp add: mat_def GCNLayer_forward_def GCNLayer_init_def spec_raw_sum_def matmul_def
        Linear_forward_def add_bias_def)
next
  case False
  define Y where "Y = map (\<lambda>i. map (\<lambda>j. sum_list (map (\<lambda>k. A ! i ! k * X ! k ! j) [0..<n]))
                                  [0..<d]) [0..<n]"
  have mY: "mat n d Y"
    unfolding Y_def by (rule mat_map_upt)
  have AX: "matmul A X = Inr Y"
    using matmul_entries [OF A, of X] mat_length [OF X] mat_ncols [OF X] False
    by (simp add: Y_def)
  let ?L = "\<lparr>in_features = d, out_features = odim, weight = W, bias = b\<rparr>"
  have lin: "Linear_forward ?L Y =
         Inr (map (\<lambda>i. map (\<lambda>c. sum_list (map (\<lambda>k. Y ! i ! k * W ! c ! k) [0..<d]) + b ! c)
                            [0..<odim]) [0..<n])"
    using Linear_forward_entries [of n ?L Y] mY by simp
  have lt: "length (transpose_t d W) = d"
    by (simp add: transpose_t_def)
  have nt: "ncols (transpose_t d W) = odim"
    using d mat_length [OF W] by (simp add: ncols_transpose_t)
  have YW: "matmul Y (transpose_t d W) =
         Inr (map (\<lambda>i. map (\<lambda>c. sum_list (map (\<lambda>k. Y ! i ! k * W ! c ! k) [0..<d]))
                            [0..<odim]) [0..<n])"
  proof -
    have "matmul Y (transpose_t d W) =
         Inr (map (\<lambda>i. map (\<lambda>c. sum_list (map (\<lambda>k. Y ! i ! k * transpose_t d W ! k ! c)
                                                [0..<d])) [0..<odim]) [0..<n])"
      using matmul_entries [OF mY lt] by (simp add: nt)
    also have "\<dots> = Inr (map (\<lambda>i. map (\<lambda>c. sum_list (map (\<lambda>k. Y ! i ! k * W ! c ! k) [0..<d]))
                            [0..<odim]) [0..<n])"
      using mat_length [OF W]
      by (intro arg_cong [where f = Inr] map_upt_cong sum_list_upt_cong)
         (simp add: transpose_t_nth)
    finally show ?thesis .
  qed
  show ?thesis
    unfolding GCNLayer_forward_def GCNLayer_init_def spec_raw_sum_def
    using b by (simp add: AX lin YW add_bias_def)
qed

lemma add_bias_zero:
  assumes "mat r (length b) Y" "list_all (\<lambda>v. v = 0) b"
  shows "add_bias Y b = Y"
proof -
  have z: "\<And>j. j < length b \<Longrightarrow> b ! j = 0"
    using assms(2) by (simp add: list_all_length)
  have "map (\<lambda>j. row ! j + b ! j) [0..<length b] = row" if "row \<in> set Y" for row
  proof (rule nth_equalityI)
    show "length (map (\<lambda>j. row ! j + b ! j) [0..<length b]) = length row"
      using that assms(1) by (simp add: mat_def list_all_iff)
  next
    fix i assume "i < length (map (\<lambda>j. row ! j + b ! j) [0..<length b])"
    then show "map (\<lambda>j. row ! j + b ! j) [0..<length b] ! i = row ! i"
      by (simp add: z)
  qed
  then show ?thesis
    by (simp add: add_bias_def map_idI)
qed

lemma matmul_mat:
  assumes "matmul M N = Inr Y"
  shows "mat (length M) (ncols N) Y"
  using assms by (auto simp: matmul_def mat_def list_all_iff split: if_splits)

lemma matmul_neighbours:
  assumes A: "mat n n A" and X: "mat n d X" and bin: "binary_t A"
  shows "matmul A X =
         Inr (map (\<lambda>i. map (\<lambda>j. sum_list (map (\<lambda>k. X ! k ! j) (neighbours A i))) [0..<d])
                  [0..<n])"
proof (cases "n = 0")
  case True
  with A show ?thesis by (simp add: mat_def matmul_def)
next
  case False
  have "matmul A X = Inr (map (\<lambda>i. map (\<lambda>j. sum_list (map (\<lambda>k. A ! i ! k * X ! k ! j) [0..<n]))
                                  [0..<d]) [0..<n])"
    using matmul_entries [OF A, of X] mat_length [OF X] mat_ncols [OF X] False by simp
  also have "\<dots> = Inr (map (\<lambda>i. map (\<lambda>j. sum_list (map (\<lambda>k. X ! k ! j) (neighbours A i)))
                                  [0..<d]) [0..<n])"
  proof (intro arg_cong [where f = Inr] map_upt_cong)
    fix i j assume i: "i < n" and "j < d"
    have "\<forall>k\<in>set [0..<n]. A ! i ! k = 0 \<or> A ! i ! k = 1"
      using bin A i by (auto simp: binary_t_def mat_def list_all_length)
    then show "sum_list (map (\<lambda>k. A ! i ! k * X ! k ! j) [0..<n])
               = sum_list (map (\<lambda>k. X ! k ! j) (neighbours A i))"
      using mat_row [OF A i] by (simp add: sum_list_indicator neighbours_def)
  qed
  finally show ?thesis .
qed

text \<open>
  On a diagonal matrix \<open>inverse_t\<close> is the matrix inverse: its result is a right and a left
  inverse, it raises only when no inverse exists, and the constructor applies it to a
  diagonal matrix.
\<close>

lemma is_diag_nth:
  "is_diag M \<Longrightarrow> i < length M \<Longrightarrow> j < length (M ! i) \<Longrightarrow> i \<noteq> j \<Longrightarrow> M ! i ! j = 0"
  by (auto simp: is_diag_def list_all_length)

lemma is_diag_sqrt_diag: "is_diag (sqrt_t (diag v))"
  unfolding sqrt_t_diag by (simp add: is_diag_def diag_def list_all_length)

lemma is_diag_eq_diag:
  assumes M: "mat n n M" and d: "is_diag M"
  shows "M = diag (map (\<lambda>i. M ! i ! i) [0..<n])"
proof (rule nth_equalityI)
  show "length M = length (diag (map (\<lambda>i. M ! i ! i) [0..<n]))"
    using M by (simp add: mat_def length_diag)
next
  fix i assume "i < length M"
  then have i: "i < n"
    using M by (simp add: mat_def)
  show "M ! i = diag (map (\<lambda>i. M ! i ! i) [0..<n]) ! i"
  proof (rule nth_equalityI)
    show "length (M ! i) = length (diag (map (\<lambda>i. M ! i ! i) [0..<n]) ! i)"
      using mat_row [OF M i] i by (simp add: diag_def)
  next
    fix j assume "j < length (M ! i)"
    then have j: "j < n"
      using mat_row [OF M i] by simp
    show "M ! i ! j = diag (map (\<lambda>i. M ! i ! i) [0..<n]) ! i ! j"
      using i j is_diag_nth [OF d, of i j] mat_length [OF M] mat_row [OF M i]
      by (simp add: diag_nth)
  qed
qed

lemma inverse_t_right:
  assumes M: "mat n n M" and d: "is_diag M" and inv: "inverse_t M = Inr N"
  shows "matmul M N = Inr (eye n)"
proof -
  let ?w = "map (\<lambda>i. M ! i ! i) [0..<n]"
  let ?u = "map (\<lambda>i. 1 / ?w ! i) [0..<n]"
  have Md: "M = diag ?w"
    using M d by (rule is_diag_eq_diag)
  have "inverse_t (diag ?w) = Inr N"
    using inv Md by simp
  then have nz: "\<not> list_ex (\<lambda>i. ?w ! i = 0) [0..<n]" and N: "N = diag ?u"
    by (auto simp: inverse_t_diag split: if_splits)
  have "matmul M (diag ?u) = Inr (map (\<lambda>i. map (\<lambda>j. M ! i ! j * ?u ! j) [0..<n]) [0..<n])"
    using M by (intro matmul_diag_right) simp_all
  also have "\<dots> = Inr (eye n)"
    unfolding eye_def
  proof (intro arg_cong [where f = Inr] map_upt_cong)
    fix i j assume ij: "i < n" "j < n"
    have "M ! i ! j = (if i = j then M ! i ! i else 0)"
      using ij is_diag_nth [OF d, of i j] mat_length [OF M] mat_row [OF M ij(1)] by simp
    moreover have "M ! j ! j \<noteq> 0"
      using nz ij by (auto simp: list_ex_iff)
    ultimately show "M ! i ! j * ?u ! j = (if i = j then 1 else 0)"
      using ij by (cases "i = j") simp_all
  qed
  finally show ?thesis
    by (simp add: N)
qed

lemma inverse_t_left:
  assumes M: "mat n n M" and d: "is_diag M" and inv: "inverse_t M = Inr N"
  shows "matmul N M = Inr (eye n)"
proof -
  let ?w = "map (\<lambda>i. M ! i ! i) [0..<n]"
  let ?u = "map (\<lambda>i. 1 / ?w ! i) [0..<n]"
  have Md: "M = diag ?w"
    using M d by (rule is_diag_eq_diag)
  have "inverse_t (diag ?w) = Inr N"
    using inv Md by simp
  then have nz: "\<not> list_ex (\<lambda>i. ?w ! i = 0) [0..<n]" and N: "N = diag ?u"
    by (auto simp: inverse_t_diag split: if_splits)
  have "matmul (diag ?u) M = Inr (map (\<lambda>i. map (\<lambda>j. ?u ! i * M ! i ! j) [0..<n]) [0..<n])"
    using M by (intro matmul_diag_left) simp_all
  also have "\<dots> = Inr (eye n)"
    unfolding eye_def
  proof (intro arg_cong [where f = Inr] map_upt_cong)
    fix i j assume ij: "i < n" "j < n"
    have "M ! i ! j = (if i = j then M ! i ! i else 0)"
      using ij is_diag_nth [OF d, of i j] mat_length [OF M] mat_row [OF M ij(1)] by simp
    moreover have "M ! i ! i \<noteq> 0"
      using nz ij by (auto simp: list_ex_iff)
    ultimately show "?u ! i * M ! i ! j = (if i = j then 1 else 0)"
      using ij by (cases "i = j") simp_all
  qed
  finally show ?thesis
    by (simp add: N)
qed

lemma inverse_t_singular:
  assumes M: "mat n n M" and d: "is_diag M" and inv: "inverse_t M = Inl LinAlgError"
  shows "matmul M N \<noteq> Inr (eye n)"
proof
  assume e: "matmul M N = Inr (eye n)"
  from inv obtain i where i: "i < n" "M ! i ! i = 0"
    using mat_length [OF M]
    by (auto simp: inverse_t_def nrows_def list_ex_iff split: if_splits)
  have row: "M ! i ! k = 0" if "k < n" for k
    using that i is_diag_nth [OF d, of i k] mat_length [OF M] mat_row [OF M i(1)]
    by (cases "k = i") simp_all
  from e have chk: "list_all (\<lambda>row. length row = nrows N) M"
    by (simp add: matmul_def split: if_splits)
  then have lN: "length N = n"
    using i(1) mat_length [OF M] mat_row [OF M i(1)]
    by (auto simp: list_all_length nrows_def)
  have "matmul M N = Inr (map (\<lambda>i. map (\<lambda>j. sum_list (map (\<lambda>k. M ! i ! k * N ! k ! j) [0..<n]))
                                  [0..<ncols N]) [0..<n])"
    using M lN by (rule matmul_entries)
  with e have eq: "eye n = map (\<lambda>i. map (\<lambda>j. sum_list (map (\<lambda>k. M ! i ! k * N ! k ! j) [0..<n]))
                                  [0..<ncols N]) [0..<n]"
    by simp
  then have "length (eye n ! i) = ncols N"
    using i(1) by simp
  then have nc: "ncols N = n"
    using i(1) by (simp add: eye_def)
  have "eye n ! i ! i = sum_list (map (\<lambda>k. M ! i ! k * N ! k ! i) [0..<n])"
    using i(1) nc by (subst eq) simp
  also have "\<dots> = sum_list (map (\<lambda>k. 0) [0..<n])"
    by (intro sum_list_upt_cong) (simp add: row)
  also have "\<dots> = 0"
    by simp
  finally show False
    using i(1) by (simp add: eye_nth)
qed

section \<open>The normalised adjacency of the layer\<close>

text \<open>
  Claim C1. The specification states that the normalised adjacency used by the
  symmetric-normalised layer is \<open>D^{-1/2} (A + I) D^{-1/2}\<close> with \<open>D\<close> the degree matrix of
  \<open>A + I\<close>, and so does the notebook's own text above the class (\<open>\<tilde>D\<close> is the degree
  matrix of \<open>\<tilde>A = A + I\<close>). The constructor takes the degrees from \<^verbatim>\<open>adj.sum(axis=1)\<close>,
  the row sums without the self-loops. On the graph of two nodes joined by one edge, built
  as in the notebook with \<^verbatim>\<open>A=adj\<close>, the layer holds the all-ones matrix, while the
  specified matrix has every entry \<open>1/2\<close>.
\<close>

theorem adj_norm_differs_from_spec:
  "map_sum id adj_norm (GCNLayer_norm_init [[0, 1], [1, 0]] 1 1 [[0, 1], [1, 0]] [[1]] [0])
     = Inr [[1, 1], [1, 1]]
   \<and> spec_adj_norm [[0, 1], [1, 0]] = [[1 / 2, 1 / 2], [1 / 2, 1 / 2]]"
  by (simp add: GCNLayer_norm_init_def tadd_def bdim_def bidx_def eye_def inverse_t_def
      sqrt_t_def diag_def sum_axis1_def matmul_def nrows_def ncols_def upt_conv_Cons
      spec_adj_norm_def spec_degree_def spec_self_loops_def)

section \<open>The ring scenario\<close>

text \<open>
  Claim C2. On the ring of five nodes with \<open>X = ones(5, 1)\<close>, weight \<open>[[1]]\<close> and zero bias,
  every row of the raw-sum layer's output is \<open>2\<close>, as the specification says. Every row of
  the symmetric-normalised layer's output is \<open>3/2\<close>, not the \<open>1\<close> of the specification:
  the constructor divides by the degree \<open>2\<close> taken before the self-loop is added, not by
  \<open>3\<close>.
\<close>

theorem ring5_outputs:
  "GCNLayer_forward (GCNLayer_init 1 1 ring5 [[1]] [0]) ones51
     = Inr [[2], [2], [2], [2], [2]]
   \<and> GCNLayer_norm_apply ring5 1 1 ring5 [[1]] [0] ones51
     = Inr [[3 / 2], [3 / 2], [3 / 2], [3 / 2], [3 / 2]]"
  by (simp add: GCNLayer_forward_def GCNLayer_init_def GCNLayer_norm_apply_def
      GCNLayer_norm_forward_def Linear_forward_def ring5_def ones51_def GCNLayer_norm_init_def
      tadd_def bdim_def bidx_def eye_def inverse_t_def sqrt_t_def diag_def sum_axis1_def
      matmul_def nrows_def ncols_def upt_conv_Cons)

section \<open>The raw-sum layer as a matrix product\<close>

text \<open>
  Claim C3, as stated: the raw-sum layer's output equals \<open>(A \<cdot> X) \<cdot> W\<close> exactly. The layer
  ends in \<^verbatim>\<open>nn.Linear\<close>, which adds its bias: with \<open>A = X = W = [[1]]\<close> and bias \<open>[1]\<close> the
  output is \<open>[[2]]\<close> and the product is \<open>[[1]]\<close>.
\<close>

theorem raw_sum_bias_counterexample:
  "GCNLayer_forward (GCNLayer_init 1 1 [[1]] [[1]] [1]) [[1]] = Inr [[2]]
   \<and> spec_raw_sum [[1]] [[1]] (transpose_t 1 [[1]]) = Inr [[1]]"
  by (simp add: GCNLayer_forward_def GCNLayer_init_def Linear_forward_def spec_raw_sum_def
      transpose_t_def matmul_def nrows_def ncols_def)

text \<open>
  Claim C3, amended. For an adjacency matrix \<open>A\<close> of \<open>n\<close> nodes, features \<open>X\<close> of shape
  \<open>n \<times> d\<close> with \<open>d > 0\<close>, a weight of shape \<open>odim \<times> d\<close> and a bias of length \<open>odim\<close>, the
  output of the raw-sum layer is the product \<open>(A \<cdot> X) \<cdot> W\<^sup>T\<close> with the bias added to every
  row; it is the product itself when the bias is zero; and for a 0/1 matrix \<open>A\<close> row \<open>i\<close> of
  \<open>A \<cdot> X\<close> is the sum of the feature vectors of the neighbours of \<open>i\<close> (of \<open>i\<close> itself only
  when \<open>A\<close> has a self-loop there).
\<close>

theorem raw_sum_forward:
  assumes A: "mat n n A" and X: "mat n d X" and W: "mat odim d W"
    and b: "length b = odim" and d: "0 < d"
  shows "GCNLayer_forward (GCNLayer_init d odim A W b) X
           = map_sum id (\<lambda>Y. add_bias Y b) (spec_raw_sum A X (transpose_t d W))
       \<and> (list_all (\<lambda>v. v = 0) b \<longrightarrow>
            GCNLayer_forward (GCNLayer_init d odim A W b) X
              = spec_raw_sum A X (transpose_t d W))
       \<and> (binary_t A \<longrightarrow>
            matmul A X =
              Inr (map (\<lambda>i. map (\<lambda>j. sum_list (map (\<lambda>k. X ! k ! j) (neighbours A i)))
                                 [0..<d]) [0..<n]))"
proof (intro conjI impI)
  show g: "GCNLayer_forward (GCNLayer_init d odim A W b) X
           = map_sum id (\<lambda>Y. add_bias Y b) (spec_raw_sum A X (transpose_t d W))"
    using assms by (rule raw_sum_general)
  show "GCNLayer_forward (GCNLayer_init d odim A W b) X = spec_raw_sum A X (transpose_t d W)"
    if z: "list_all (\<lambda>v. v = 0) b"
  proof (cases "spec_raw_sum A X (transpose_t d W)")
    case (Inl e)
    with g show ?thesis by simp
  next
    case (Inr Z)
    then obtain Y where "matmul Y (transpose_t d W) = Inr Z"
      by (auto simp: spec_raw_sum_def split: sum.splits)
    then have "mat (length Y) (length b) Z"
      using matmul_mat [of Y "transpose_t d W" Z] d b mat_length [OF W]
      by (simp add: ncols_transpose_t)
    then have "add_bias Z b = Z"
      using z by (rule add_bias_zero)
    with g Inr show ?thesis by simp
  qed
  show "matmul A X =
          Inr (map (\<lambda>i. map (\<lambda>j. sum_list (map (\<lambda>k. X ! k ! j) (neighbours A i)))
                             [0..<d]) [0..<n])"
    if "binary_t A"
    using A X that by (rule matmul_neighbours)
qed

theorem raw_sum_forward_witness:
  "GCNLayer_forward (GCNLayer_init 1 1 ring5 [[1]] [0]) ones51
     = map_sum id (\<lambda>Y. add_bias Y [0]) (spec_raw_sum ring5 ones51 (transpose_t 1 [[1]]))
   \<and> GCNLayer_forward (GCNLayer_init 1 1 ring5 [[1]] [0]) ones51
       = spec_raw_sum ring5 ones51 (transpose_t 1 [[1]])
   \<and> matmul ring5 ones51 = Inr [[2], [2], [2], [2], [2]]"
proof -
  have h: "mat 5 5 ring5" "mat 5 1 ones51" "mat 1 1 [[1]]" "length [0::real] = 1" "0 < (1::nat)"
    "binary_t ring5" "list_all (\<lambda>v. v = 0) [0::real]"
    by (simp_all add: mat_def ring5_def ones51_def binary_t_def)
  have e: "map (\<lambda>i. map (\<lambda>j. sum_list (map (\<lambda>k. ones51 ! k ! j) (neighbours ring5 i)))
                             [0..<1]) [0..<5] = [[2], [2], [2], [2], [2]]"
    by (simp add: neighbours_def ring5_def ones51_def upt_conv_Cons)
  note t = raw_sum_forward [OF h(1-5)]
  from t have c1: "GCNLayer_forward (GCNLayer_init 1 1 ring5 [[1]] [0]) ones51
     = map_sum id (\<lambda>Y. add_bias Y [0]) (spec_raw_sum ring5 ones51 (transpose_t 1 [[1]]))"
    by (rule conjunct1)
  from t h(7) have c2: "GCNLayer_forward (GCNLayer_init 1 1 ring5 [[1]] [0]) ones51
       = spec_raw_sum ring5 ones51 (transpose_t 1 [[1]])"
    by blast
  from t h(6) have "matmul ring5 ones51 =
      Inr (map (\<lambda>i. map (\<lambda>j. sum_list (map (\<lambda>k. ones51 ! k ! j) (neighbours ring5 i)))
                             [0..<1]) [0..<5])"
    by blast
  then have c3: "matmul ring5 ones51 = Inr [[2], [2], [2], [2], [2]]"
    unfolding e .
  from c1 c2 c3 show ?thesis
    by blast
qed

section \<open>Isolated nodes\<close>

text \<open>
  Claim C4. The specification states that building the symmetric-normalised layer never
  meets a singular inverse, since every node has a self-loop before the degrees are taken.
  The constructor takes the degrees before adding the self-loops, so a node without edges
  has degree zero: on the graph with one edge and one isolated node \<^verbatim>\<open>torch.inverse\<close>
  raises and no layer is built.
\<close>

theorem isolated_node_singular:
  "GCNLayer_norm_init [[0, 1, 0], [1, 0, 0], [0, 0, 0]] 1 1
     [[0, 1, 0], [1, 0, 0], [0, 0, 0]] [[1]] [0] = Inl LinAlgError"
  by (simp add: GCNLayer_norm_init_def tadd_def bdim_def bidx_def eye_def inverse_t_def
      sqrt_t_def diag_def sum_axis1_def matmul_def nrows_def ncols_def upt_conv_Cons)

section \<open>The constructor argument\<close>

text \<open>
  Claim C10. The constructor of the symmetric-normalised layer uses its argument \<open>A\<close>
  through its row count only: two arguments with the same number of rows give, for the same
  global \<^verbatim>\<open>adj\<close> and the same parameters of the linear layer, the same normalised adjacency
  (or the same exception) and the same output on every input.
\<close>

theorem init_ignores_argument:
  "nrows A1 = nrows A2 \<Longrightarrow>
     map_sum id adj_norm (GCNLayer_norm_init adj idim odim A1 W b)
       = map_sum id adj_norm (GCNLayer_norm_init adj idim odim A2 W b)
   \<and> GCNLayer_norm_apply adj idim odim A1 W b X = GCNLayer_norm_apply adj idim odim A2 W b X"
  by (simp add: GCNLayer_norm_init_def GCNLayer_norm_apply_def GCNLayer_norm_forward_def
      split: sum.splits)

theorem init_ignores_argument_witness:
  "nrows [[0, 1], [1, 0]] = nrows [[0, 0], [0, 0]]
   \<and> map_sum id adj_norm (GCNLayer_norm_init [[0, 1], [1, 0]] 1 1 [[0, 1], [1, 0]] [[1]] [0])
       = map_sum id adj_norm (GCNLayer_norm_init [[0, 1], [1, 0]] 1 1 [[0, 0], [0, 0]] [[1]] [0])
   \<and> GCNLayer_norm_apply [[0, 1], [1, 0]] 1 1 [[0, 1], [1, 0]] [[1]] [0] [[1], [2]]
       = GCNLayer_norm_apply [[0, 1], [1, 0]] 1 1 [[0, 0], [0, 0]] [[1]] [0] [[1], [2]]"
proof -
  have h: "nrows [[0, 1], [1, 0]] = nrows [[0, 0], [0, 0]]"
    by (simp add: nrows_def)
  from init_ignores_argument [OF h, of "[[0, 1], [1, 0]]" 1 1 "[[1]]" "[0]" "[[1], [2]]"] h
  show ?thesis
    by blast
qed

section \<open>What the pooling returns and when it raises\<close>

lemma collect_map_Inr:
  "(\<And>x. x \<in> set xs \<Longrightarrow> f x = Inr (g x)) \<Longrightarrow> collect (map f xs) = Inr (map g xs)"
  by (induction xs) simp_all

lemma collect_isl_iff: "isl (collect rs) \<longleftrightarrow> (\<exists>r\<in>set rs. isl r)"
proof (induction rs)
  case Nil
  then show ?case by simp
next
  case (Cons a rs)
  show ?case
  proof (cases a)
    case (Inl e)
    then show ?thesis by simp
  next
    case (Inr v)
    then show ?thesis
      using Cons.IH by (cases "collect rs") auto
  qed
qed

lemma collect_Inr_nth:
  "collect rs = Inr vs \<Longrightarrow> length vs = length rs \<and> (\<forall>i<length rs. rs ! i = Inr (vs ! i))"
proof (induction rs arbitrary: vs)
  case Nil
  then show ?case by simp
next
  case (Cons a rs)
  then obtain v where a: "a = Inr v"
    by (cases a) simp_all
  with Cons.prems obtain ws where ws: "collect rs = Inr ws" "vs = v # ws"
    by (cases "collect rs") auto
  from Cons.IH [OF ws(1)] a ws(2) show ?case
    by (auto simp: nth_Cons split: nat.splits)
qed

lemma take_drop_nth:
  "s + l \<le> length xs \<Longrightarrow> take l (drop s xs) = map (nth xs) [s..<s + l]"
  by (simp add: list_eq_iff_nth_eq)

lemma narrow0_segment:
  assumes "0 \<le> s" "s \<le> e" "e \<le> int (length x)"
  shows "narrow0 x s (e - s) = Inr (map (nth x) [nat s..<nat e])"
proof -
  have "nat s + nat (e - s) \<le> length x"
    using assms by linarith
  then have "take (nat (e - s)) (drop (nat s) x) = map (nth x) [nat s..<nat s + nat (e - s)]"
    by (rule take_drop_nth)
  moreover have "nat s + nat (e - s) = nat e"
    using assms by linarith
  ultimately show ?thesis
    using assms by (simp add: narrow0_def Let_def)
qed

lemma extract_t_segment:
  assumes k: "k + 1 < length ptr"
    and s: "0 \<le> ptr ! k" "ptr ! k \<le> ptr ! (k + 1)" "ptr ! (k + 1) \<le> int (length (entries X))"
  shows "extract_t X k ptr =
         Inr \<lparr>width = width X,
              entries = [map (\<lambda>j. sum_list (map (\<lambda>i. entries X ! i ! j)
                                                 [nat (ptr ! k)..<nat (ptr ! (k + 1))]))
                             [0..<width X]]\<rparr>"
proof -
  have nar: "narrow0 (entries X) (ptr ! k) (ptr ! (k + 1) - ptr ! k)
             = Inr (map (nth (entries X)) [nat (ptr ! k)..<nat (ptr ! (k + 1))])"
    using s by (rule narrow0_segment)
  show ?thesis
    unfolding extract_t_def Let_def nar
    using k by (simp add: sum_axis0_def reshape_row_def comp_def)
qed

lemma extract_t_width: "extract_t x k ptr = Inr t \<Longrightarrow> width t = width x"
  by (auto simp: extract_t_def reshape_row_def sum_axis0_def Let_def split: if_splits sum.splits)

lemma concat_t_same_width:
  "ts \<noteq> [] \<Longrightarrow> list_all (\<lambda>u. width u = c) ts \<Longrightarrow>
     concat_t ts = Inr \<lparr>width = c, entries = concat (map entries ts)\<rparr>"
  by (cases ts) (auto simp: concat_t_def list_all_iff)

lemma pool_segments:
  assumes len: "length ptr = B + 1" and B: "0 < B" and mono: "sorted ptr"
    and first: "ptr ! 0 = 0" and last: "ptr ! B = int (length (entries X))"
  shows "pool X ptr =
         Inr \<lparr>width = width X,
              entries = map (\<lambda>k. map (\<lambda>j. sum_list (map (\<lambda>i. entries X ! i ! j)
                                                 [nat (ptr ! k)..<nat (ptr ! (k + 1))]))
                                       [0..<width X]) [0..<B]\<rparr>"
proof -
  let ?v = "\<lambda>k. map (\<lambda>j. sum_list (map (\<lambda>i. entries X ! i ! j)
                                       [nat (ptr ! k)..<nat (ptr ! (k + 1))]))
                    [0..<width X]"
  let ?t = "\<lambda>k. \<lparr>width = width X, entries = [?v k]\<rparr>"
  have ex: "extract_t X k ptr = Inr (?t k)" if "k \<in> set [0..<B]" for k
  proof -
    from that have k: "k < B" by simp
    have "ptr ! 0 \<le> ptr ! k"
      using mono k len by (intro sorted_nth_mono) simp_all
    moreover have "ptr ! k \<le> ptr ! (k + 1)"
      using mono k len by (intro sorted_nth_mono) simp_all
    moreover have "ptr ! (k + 1) \<le> ptr ! B"
      using mono k len by (intro sorted_nth_mono) simp_all
    ultimately show ?thesis
      using k len first last by (intro extract_t_segment) simp_all
  qed
  have col: "collect (map (\<lambda>idx. extract_t X idx ptr) [0..<B]) = Inr (map ?t [0..<B])"
    using ex by (rule collect_map_Inr)
  have cc: "concat_t (map ?t [0..<B]) = Inr \<lparr>width = width X, entries = map ?v [0..<B]\<rparr>"
  proof -
    have "list_all (\<lambda>u. width u = width X) (map ?t [0..<B])"
      by (simp add: list_all_iff)
    moreover have "map ?t [0..<B] \<noteq> []"
      using B by simp
    moreover have "concat (map entries (map ?t [0..<B])) = map ?v [0..<B]"
      by (induction B) simp_all
    ultimately show ?thesis
      by (simp add: concat_t_same_width)
  qed
  have lB: "length ptr - 1 = B"
    using len by simp
  show ?thesis
    unfolding pool_def lB col sum.case cc by (rule refl)
qed

lemma extract_t_isl_iff:
  assumes "k + 1 < length ptr"
  shows "isl (extract_t x k ptr) \<longleftrightarrow>
           ptr ! (k + 1) < ptr ! k \<or> int (length (entries x)) < ptr ! (k + 1)
           \<or> ptr ! k < - int (length (entries x)) \<or> (ptr ! k < 0 \<and> 0 < ptr ! (k + 1))"
  using assms by (auto simp: extract_t_def narrow0_def Let_def)

lemma pool_isl_iff:
  "isl (pool x ptr) \<longleftrightarrow>
     length ptr \<le> 1 \<or> (\<exists>k. k + 1 < length ptr \<and> isl (extract_t x k ptr))"
proof -
  let ?rs = "map (\<lambda>idx. extract_t x idx ptr) [0..<length ptr - 1]"
  have "k < length ptr - 1 \<longleftrightarrow> k + 1 < length ptr" for k
    by linarith
  then have ex: "(\<exists>r\<in>set ?rs. isl r) \<longleftrightarrow> (\<exists>k. k + 1 < length ptr \<and> isl (extract_t x k ptr))"
    by (simp add: Bex_def image_iff) blast
  show ?thesis
  proof (cases "collect ?rs")
    case (Inl e)
    then have "isl (collect ?rs)"
      by simp
    then have "\<exists>r\<in>set ?rs. isl r"
      by (simp only: collect_isl_iff)
    with ex Inl show ?thesis
      by (simp add: pool_def)
  next
    case (Inr ts)
    then have "\<not> isl (collect ?rs)"
      by simp
    then have none: "\<not> (\<exists>k. k + 1 < length ptr \<and> isl (extract_t x k ptr))"
      unfolding collect_isl_iff ex .
    from collect_Inr_nth [OF Inr]
    have lts: "length ts = length ptr - 1"
      and nth: "\<And>i. i < length ptr - 1 \<Longrightarrow> extract_t x i ptr = Inr (ts ! i)"
      by simp_all
    have wd: "list_all (\<lambda>u. width u = width x) ts"
      unfolding list_all_length
    proof (intro allI impI)
      fix i assume "i < length ts"
      then have "extract_t x i ptr = Inr (ts ! i)"
        using lts nth by simp
      then show "width (ts ! i) = width x"
        by (rule extract_t_width)
    qed
    show ?thesis
    proof (cases "ts = []")
      case True
      with lts have "length ptr \<le> 1"
        by simp
      with True Inr show ?thesis
        by (simp add: pool_def concat_t_def)
    next
      case False
      with lts have "\<not> length ptr \<le> 1"
        by auto
      moreover have "\<not> isl (pool x ptr)"
        using Inr concat_t_same_width [OF False wd] by (simp add: pool_def)
      ultimately show ?thesis
        using none by simp
    qed
  qed
qed

text \<open>
  Claim C5, as stated: for every batch of \<open>B\<close> graphs the pooled output has \<open>B\<close> rows. For
  the empty batch (\<open>B = 0\<close>, \<open>ptr = [0]\<close>, no node) the comprehension yields the empty list
  and \<^verbatim>\<open>torch.concat\<close> raises.
\<close>

theorem pool_empty_batch_counterexample:
  "length [0 :: int] = 0 + 1 \<and> sorted [0 :: int] \<and> [0 :: int] ! 0 = 0
   \<and> [0 :: int] ! 0 = int (length (entries \<lparr>width = 1, entries = []\<rparr>))
   \<and> pool \<lparr>width = 1, entries = []\<rparr> [0] = Inl RuntimeError"
  by (simp add: pool_def concat_t_def)

text \<open>
  Claim C5, amended. For a batch of \<open>B \<ge> 1\<close> graphs with a node matrix \<open>X\<close> of shape \<open>(n, d)\<close>
  (\<open>n\<close> and \<open>d\<close> may be zero) and a monotone boundary array \<open>ptr\<close> of length \<open>B + 1\<close> with
  \<open>ptr[0] = 0\<close> and \<open>ptr[B] = n\<close>, the pooling succeeds, its output has shape \<open>(B, d)\<close>, and
  row \<open>k\<close> is the elementwise sum of the rows \<open>ptr[k], \<dots>, ptr[k+1] - 1\<close> of \<open>X\<close>. In
  particular, for \<open>ptr = [0, 2, 5]\<close> row 0 is \<open>X[0] + X[1]\<close> and row 1 is
  \<open>X[2] + X[3] + X[4]\<close>.
\<close>

theorem pool_sums_segments:
  assumes X: "mat n d (entries X)" and w: "width X = d"
    and len: "length ptr = B + 1" and B: "0 < B" and mono: "sorted ptr"
    and first: "ptr ! 0 = 0" and last: "ptr ! B = int n"
  shows "pool X ptr =
           Inr \<lparr>width = d,
                entries = map (\<lambda>k. map (\<lambda>j. sum_list (map (\<lambda>i. entries X ! i ! j)
                                                   [nat (ptr ! k)..<nat (ptr ! (k + 1))]))
                                         [0..<d]) [0..<B]\<rparr>
       \<and> (ptr = [0, 2, 5] \<longrightarrow>
            pool X ptr =
              Inr \<lparr>width = d,
                   entries = [map (\<lambda>j. entries X ! 0 ! j + entries X ! 1 ! j) [0..<d],
                              map (\<lambda>j. entries X ! 2 ! j + entries X ! 3 ! j + entries X ! 4 ! j)
                                  [0..<d]]\<rparr>)"
proof (intro conjI impI)
  have l: "ptr ! B = int (length (entries X))"
    using last mat_length [OF X] by simp
  show g: "pool X ptr =
           Inr \<lparr>width = d,
                entries = map (\<lambda>k. map (\<lambda>j. sum_list (map (\<lambda>i. entries X ! i ! j)
                                                   [nat (ptr ! k)..<nat (ptr ! (k + 1))]))
                                         [0..<d]) [0..<B]\<rparr>"
    using pool_segments [OF len B mono first l] w by simp
  assume p: "ptr = [0, 2, 5]"
  with len have B2: "B = 2"
    by simp
  have "map (\<lambda>k. map (\<lambda>j. sum_list (map (\<lambda>i. entries X ! i ! j)
                                      [nat ([0, 2, 5] ! k)..<nat ([0, 2, 5] ! (k + 1))]))
                   [0..<d]) [0..<2]
        = [map (\<lambda>j. entries X ! 0 ! j + entries X ! 1 ! j) [0..<d],
           map (\<lambda>j. entries X ! 2 ! j + entries X ! 3 ! j + entries X ! 4 ! j) [0..<d]]"
    by (simp add: upt_conv_Cons)
  with g show "pool X ptr =
              Inr \<lparr>width = d,
                   entries = [map (\<lambda>j. entries X ! 0 ! j + entries X ! 1 ! j) [0..<d],
                              map (\<lambda>j. entries X ! 2 ! j + entries X ! 3 ! j + entries X ! 4 ! j)
                                  [0..<d]]\<rparr>"
    unfolding p B2 by simp
qed

theorem pool_sums_segments_witness:
  "mat 5 1 (entries \<lparr>width = 1, entries = [[1], [2], [3], [4], [5]]\<rparr>)
   \<and> length [0, 2, 5 :: int] = 2 + 1 \<and> sorted [0, 2, 5 :: int]
   \<and> [0, 2, 5 :: int] ! 0 = 0 \<and> [0, 2, 5 :: int] ! 2 = int 5
   \<and> pool \<lparr>width = 1, entries = [[1], [2], [3], [4], [5]]\<rparr> [0, 2, 5]
       = Inr \<lparr>width = 1, entries = [[3], [12]]\<rparr>"
proof -
  let ?X = "\<lparr>width = 1, entries = [[1], [2], [3], [4], [5 :: real]]\<rparr>"
  have h: "mat 5 1 (entries ?X)" "width ?X = 1"
    "length [0, 2, 5 :: int] = 2 + 1" "0 < (2::nat)" "sorted [0, 2, 5 :: int]"
    "[0, 2, 5 :: int] ! 0 = 0" "[0, 2, 5 :: int] ! 2 = int 5"
    by (simp_all add: mat_def)
  from pool_sums_segments [OF h]
  have "pool ?X [0, 2, 5]
        = Inr \<lparr>width = 1,
               entries = [map (\<lambda>j. entries ?X ! 0 ! j + entries ?X ! 1 ! j) [0..<1],
                          map (\<lambda>j. entries ?X ! 2 ! j + entries ?X ! 3 ! j + entries ?X ! 4 ! j)
                              [0..<1]]\<rparr>"
    by blast
  then have "pool ?X [0, 2, 5] = Inr \<lparr>width = 1, entries = [[3], [12]]\<rparr>"
    by simp
  with h show ?thesis
    by blast
qed

text \<open>
  Claim C9, as stated: the pooling fails whenever a pointer falls outside the row range of
  \<open>X\<close>. \<^verbatim>\<open>narrow\<close> accepts a negative start and counts it from the end: with five rows
  and \<open>ptr = [-2, 0]\<close> the pooling returns the sum of the last two rows.
\<close>

theorem pool_negative_pointer_counterexample:
  "pool \<lparr>width = 1, entries = [[1], [2], [3], [4], [5]]\<rparr> [-2, 0]
     = Inr \<lparr>width = 1, entries = [[9]]\<rparr>"
  by (simp add: pool_def extract_t_def narrow0_def sum_axis0_def reshape_row_def concat_t_def
      Let_def)

text \<open>
  Claim C9, amended. For \<open>X\<close> with \<open>n\<close> rows the pooling raises, and returns no tensor,
  exactly when \<open>ptr\<close> has fewer than two entries or some adjacent pair is decreasing
  (\<open>ptr[k+1] < ptr[k]\<close>), ends beyond the rows (\<open>ptr[k+1] > n\<close>), starts below \<open>-n\<close>
  (\<open>ptr[k] < -n\<close>), or starts negative and ends positive (\<open>ptr[k] < 0 < ptr[k+1]\<close>). So a
  \<open>ptr\<close> that is not monotone, and a pointer greater than \<open>n\<close> or smaller than \<open>-n\<close>, always
  make it fail; a negative pointer in \<open>[-n, -1]\<close> is accepted only as the start of a segment
  that ends at or below \<open>0\<close>.
\<close>

theorem pool_fails_iff:
  "(\<exists>e. pool x ptr = Inl e) \<longleftrightarrow>
     length ptr \<le> 1
     \<or> (\<exists>k. k + 1 < length ptr
           \<and> (ptr ! (k + 1) < ptr ! k
               \<or> int (length (entries x)) < ptr ! (k + 1)
               \<or> ptr ! k < - int (length (entries x))
               \<or> (ptr ! k < 0 \<and> 0 < ptr ! (k + 1))))"
proof -
  have "(\<exists>e. pool x ptr = Inl e) \<longleftrightarrow> isl (pool x ptr)"
    by (cases "pool x ptr") simp_all
  also have "\<dots> \<longleftrightarrow> length ptr \<le> 1 \<or> (\<exists>k. k + 1 < length ptr \<and> isl (extract_t x k ptr))"
    by (rule pool_isl_iff)
  also have "\<dots> \<longleftrightarrow> length ptr \<le> 1
     \<or> (\<exists>k. k + 1 < length ptr
           \<and> (ptr ! (k + 1) < ptr ! k
               \<or> int (length (entries x)) < ptr ! (k + 1)
               \<or> ptr ! k < - int (length (entries x))
               \<or> (ptr ! k < 0 \<and> 0 < ptr ! (k + 1))))"
    using extract_t_isl_iff [of _ ptr x] by blast
  finally show ?thesis .
qed

theorem pool_fails_iff_witness:
  "(\<exists>e. pool \<lparr>width = 1, entries = [[1], [2], [3], [4], [5]]\<rparr> [0, 3, 2] = Inl e)
   \<and> (\<exists>e. pool \<lparr>width = 1, entries = [[1], [2], [3], [4], [5]]\<rparr> [0, 7] = Inl e)
   \<and> (\<exists>e. pool \<lparr>width = 1, entries = [[1], [2], [3], [4], [5]]\<rparr> [-6, 0] = Inl e)
   \<and> (\<exists>e. pool \<lparr>width = 1, entries = [[1], [2], [3], [4], [5]]\<rparr> [-1, 3] = Inl e)
   \<and> \<not> (\<exists>e. pool \<lparr>width = 1, entries = [[1], [2], [3], [4], [5]]\<rparr> [-2, 0, 5] = Inl e)"
proof -
  let ?x = "\<lparr>width = 1, entries = [[1], [2], [3], [4], [5 :: real]]\<rparr>"
  have a: "1 + 1 < length [0, 3, 2 :: int] \<and> [0, 3, 2 :: int] ! (1 + 1) < [0, 3, 2] ! 1"
    by simp
  have b: "0 + 1 < length [0, 7 :: int] \<and> int (length (entries ?x)) < [0, 7] ! (0 + 1)"
    by simp
  have c: "0 + 1 < length [-6, 0 :: int] \<and> [-6, 0] ! 0 < - int (length (entries ?x))"
    by simp
  have d: "0 + 1 < length [-1, 3 :: int] \<and> [-1, 3 :: int] ! 0 < 0 \<and> 0 < [-1, 3 :: int] ! (0 + 1)"
    by simp
  have e: "\<not> (length [-2, 0, 5 :: int] \<le> 1
     \<or> (\<exists>k. k + 1 < length [-2, 0, 5 :: int]
           \<and> ([-2, 0, 5 :: int] ! (k + 1) < [-2, 0, 5] ! k
               \<or> int (length (entries ?x)) < [-2, 0, 5] ! (k + 1)
               \<or> [-2, 0, 5] ! k < - int (length (entries ?x))
               \<or> ([-2, 0, 5 :: int] ! k < 0 \<and> 0 < [-2, 0, 5 :: int] ! (k + 1)))))"
    by (auto simp: nth_Cons split: nat.splits)
  have 1: "\<exists>e. pool ?x [0, 3, 2] = Inl e"
    unfolding pool_fails_iff using a by blast
  have 2: "\<exists>e. pool ?x [0, 7] = Inl e"
    unfolding pool_fails_iff using b by blast
  have 3: "\<exists>e. pool ?x [-6, 0] = Inl e"
    unfolding pool_fails_iff using c by blast
  have 4: "\<exists>e. pool ?x [-1, 3] = Inl e"
    unfolding pool_fails_iff using d by blast
  have 5: "\<not> (\<exists>e. pool ?x [-2, 0, 5] = Inl e)"
    unfolding pool_fails_iff using e .
  from 1 2 3 4 5 show ?thesis
    by blast
qed

section \<open>Duplicate edges in the dense adjacency matrix\<close>

lemma fold_max_ge: "(a::nat) \<le> fold max xs a"
  by (induction xs arbitrary: a) (auto intro: order_trans [OF max.cobounded2])

lemma fold_max_mem: "(x::nat) \<in> set xs \<Longrightarrow> x \<le> fold max xs a"
proof (induction xs arbitrary: a)
  case Nil
  then show ?case by simp
next
  case (Cons y ys)
  show ?case
  proof (cases "x = y")
    case True
    have "x \<le> max y a" using True by simp
    also have "\<dots> \<le> fold max ys (max y a)" by (rule fold_max_ge)
    finally show ?thesis by simp
  next
    case False
    with Cons.prems have "x \<in> set ys" by simp
    then show ?thesis using Cons.IH by simp
  qed
qed

lemma edge_in_range:
  assumes "(i, j) \<in> set es"
  shows "i < max_num_nodes es \<and> j < max_num_nodes es"
proof -
  have i: "i \<in> set (map fst es @ map snd es)" and j: "j \<in> set (map fst es @ map snd es)"
    using assms by force+
  have "i \<le> fold max (map fst es @ map snd es) 0"
    using i by (rule fold_max_mem)
  moreover have "j \<le> fold max (map fst es @ map snd es) 0"
    using j by (rule fold_max_mem)
  moreover have "es \<noteq> []" using assms by auto
  ultimately show ?thesis
    by (simp add: max_num_nodes_def)
qed

lemma scatter_ones_counts:
  assumes "mat n n M" "\<forall>(i, j)\<in>set es. i < n \<and> j < n"
  shows "scatter_ones M es =
         map (\<lambda>i. map (\<lambda>j. M ! i ! j + real (count_list es (i, j))) [0..<n]) [0..<n]"
  using assms
proof (induction es arbitrary: M)
  case Nil
  then show ?case
    by (simp add: mat_def list_all_length list_eq_iff_nth_eq)
next
  case (Cons e es)
  obtain a b where e: "e = (a, b)" by (cases e)
  with Cons.prems have ab: "a < n" "b < n" by simp_all
  let ?M = "M[a := (M ! a)[b := M ! a ! b + 1]]"
  have M': "mat n n ?M"
    using Cons.prems(1) ab
    by (auto simp: mat_def list_all_length nth_list_update)
  have ent: "?M ! i ! j = M ! i ! j + (if (a, b) = (i, j) then 1 else 0)"
    if "i < n" "j < n" for i j
  proof -
    have l: "length M = n" "length (M ! a) = n"
      using Cons.prems(1) ab by (simp_all add: mat_def list_all_length)
    show ?thesis
      using that ab l by (cases "i = a"; cases "j = b") simp_all
  qed
  have "scatter_ones M (e # es) = scatter_ones ?M es"
    by (simp add: e)
  also have "\<dots> = map (\<lambda>i. map (\<lambda>j. ?M ! i ! j + real (count_list es (i, j))) [0..<n]) [0..<n]"
    using M' Cons.prems(2) by (intro Cons.IH) simp_all
  also have "\<dots> = map (\<lambda>i. map (\<lambda>j. M ! i ! j + real (count_list (e # es) (i, j))) [0..<n])
                        [0..<n]"
    by (intro map_upt_cong) (simp add: ent e)
  finally show ?case .
qed

text \<open>
  Claim C6, as stated: an edge list in which \<open>(0, 1)\<close> appears twice yields the same matrix
  as the list with one occurrence. The entries are scatter-added, so the duplicate gives
  the entry \<open>2\<close>.
\<close>

theorem duplicate_edge_counterexample:
  "to_dense_adj [(0, 1), (0, 1)] = [[0, 2], [0, 0]]
   \<and> to_dense_adj [(0, 1)] = [[0, 1], [0, 0]]"
  by (simp add: to_dense_adj_def max_num_nodes_def numeral_2_eq_2)

text \<open>
  Claim C6, amended. Entry \<open>(i, j)\<close> of the dense adjacency matrix is the number of
  occurrences of the edge \<open>(i, j)\<close> in the edge list: multiplicities are counted, and the
  matrix does not depend on the order of the edges.
\<close>

theorem to_dense_adj_counts:
  "to_dense_adj es =
     map (\<lambda>i. map (\<lambda>j. real (count_list es (i, j))) [0..<max_num_nodes es])
         [0..<max_num_nodes es]"
proof -
  let ?n = "max_num_nodes es"
  have "mat ?n ?n (replicate ?n (replicate ?n 0))"
    by (simp add: mat_def list_all_length)
  moreover have "\<forall>(i, j)\<in>set es. i < ?n \<and> j < ?n"
    using edge_in_range by auto
  ultimately have "scatter_ones (replicate ?n (replicate ?n 0)) es =
         map (\<lambda>i. map (\<lambda>j. replicate ?n (replicate ?n 0) ! i ! j + real (count_list es (i, j)))
                   [0..<?n]) [0..<?n]"
    by (rule scatter_ones_counts)
  also have "\<dots> = map (\<lambda>i. map (\<lambda>j. real (count_list es (i, j))) [0..<?n]) [0..<?n]"
    by (intro map_upt_cong) simp
  finally show ?thesis
    by (simp add: to_dense_adj_def)
qed

section \<open>Symmetry of the normalised adjacency\<close>

lemma symmetric_t_nth:
  "symmetric_t M \<Longrightarrow> i < length M \<Longrightarrow> j < length M \<Longrightarrow> M ! i ! j = M ! j ! i"
  by (simp add: symmetric_t_def list_all_length)

lemma symmetric_t_map_upt:
  assumes "\<And>i j. i < n \<Longrightarrow> j < n \<Longrightarrow> f i j = f j i"
  shows "symmetric_t (map (\<lambda>i. map (f i) [0..<n]) [0..<n])"
  using assms by (simp add: symmetric_t_def list_all_length)

text \<open>
  When the global \<^verbatim>\<open>adj\<close> is the symmetric matrix \<open>A\<close> itself and no row of \<open>A\<close> sums to
  zero, the constructor returns a layer and its normalised adjacency is symmetric.
\<close>

lemma adj_norm_symmetric_when_tied:
  assumes A: "mat n n A" and sym: "symmetric_t A"
    and nz: "\<not> list_ex (\<lambda>i. sum_list (A ! i) = 0) [0..<n]"
  shows "\<exists>l. GCNLayer_norm_init A idim odim A W b = Inr l
             \<and> symmetric_t (adj_norm l) \<and> mat n n (adj_norm l)"
proof -
  let ?N = "map (\<lambda>i. map (\<lambda>j. 1 / sqrt (sum_list (A ! i))
                                  * (A ! i ! j + (if i = j then 1 else 0))
                                  * (1 / sqrt (sum_list (A ! j)))) [0..<n]) [0..<n]"
  have len: "length A = n"
    using A by (rule mat_length)
  have "symmetric_t ?N"
  proof (rule symmetric_t_map_upt)
    fix i j assume "i < n" "j < n"
    then have "A ! i ! j = A ! j ! i"
      using sym len by (simp add: symmetric_t_nth)
    then show "1 / sqrt (sum_list (A ! i)) * (A ! i ! j + (if i = j then 1 else 0))
                 * (1 / sqrt (sum_list (A ! j)))
             = 1 / sqrt (sum_list (A ! j)) * (A ! j ! i + (if j = i then 1 else 0))
                 * (1 / sqrt (sum_list (A ! i)))"
      by simp
  qed
  moreover have "mat n n ?N"
    by (rule mat_map_upt)
  ultimately show ?thesis
    using GCNLayer_norm_init_closed [OF A, of A idim odim W b] len nz
    by (simp add: nrows_def)
qed

text \<open>
  Claim C8. The specification states that for every symmetric 0/1 adjacency matrix \<open>A\<close> the
  normalised adjacency computed by the layer is symmetric. The constructor normalises the
  global \<^verbatim>\<open>adj\<close>, not its argument \<open>A\<close> (documented as the adjacency matrix): built with
  the symmetric triangle as argument while \<^verbatim>\<open>adj\<close> holds the directed 3-cycle, the layer's
  \<open>adj_norm\<close> is not symmetric. And for the symmetric 0/1 matrix \<open>[[0]]\<close> (one isolated
  node, \<^verbatim>\<open>adj\<close> the same matrix) no normalised adjacency is computed at all: the degree
  taken before the self-loop is zero and \<^verbatim>\<open>torch.inverse\<close> raises.
\<close>

theorem adj_norm_not_symmetric:
  "symmetric_t [[0, 1, 1], [1, 0, 1], [1, 1, 0]] \<and> binary_t [[0, 1, 1], [1, 0, 1], [1, 1, 0]]
   \<and> map_sum id adj_norm
        (GCNLayer_norm_init [[0, 1, 0], [0, 0, 1], [1, 0, 0]] 1 1
           [[0, 1, 1], [1, 0, 1], [1, 1, 0]] [[1]] [0])
       = Inr [[1, 1, 0], [0, 1, 1], [1, 0, 1]]
   \<and> \<not> symmetric_t [[1, 1, 0], [0, 1, 1], [1, 0, 1]]
   \<and> symmetric_t [[0]] \<and> binary_t [[0]]
   \<and> GCNLayer_norm_init [[0]] 1 1 [[0]] [[1]] [0] = Inl LinAlgError"
  by (simp add: symmetric_t_def binary_t_def GCNLayer_norm_init_def tadd_def bdim_def bidx_def
      eye_def inverse_t_def sqrt_t_def diag_def sum_axis1_def matmul_def nrows_def ncols_def
      upt_conv_Cons)

section \<open>Permutation equivariance of the normalised layer\<close>

lemma is_perm_length: "is_perm p n \<Longrightarrow> length p = n"
  by (simp add: is_perm_def)

lemma is_perm_nth: "is_perm p n \<Longrightarrow> i < n \<Longrightarrow> p ! i < n"
  by (simp add: is_perm_def list_all_length)

lemma is_perm_inj: "is_perm p n \<Longrightarrow> i < n \<Longrightarrow> j < n \<Longrightarrow> (p ! i = p ! j) = (i = j)"
  by (simp add: is_perm_def nth_eq_iff_index_eq)

lemma is_perm_set:
  assumes "is_perm p n"
  shows "set p = {0..<n}"
proof (rule card_subset_eq)
  show "finite {0..<n}" by simp
  show "set p \<subseteq> {0..<n}"
    using assms by (auto simp: is_perm_def list_all_iff)
  show "card (set p) = card {0..<n}"
    using assms by (simp add: is_perm_def distinct_card)
qed

lemma is_perm_mset:
  assumes "is_perm p n"
  shows "mset p = mset [0..<n]"
proof -
  have "mset p = mset_set (set p)"
    using assms by (simp add: is_perm_def mset_set_set)
  then show ?thesis
    using is_perm_set [OF assms] by simp
qed

lemma sum_list_perm:
  fixes f :: "nat \<Rightarrow> real"
  assumes "is_perm p n"
  shows "sum_list (map f p) = sum_list (map f [0..<n])"
proof -
  have "sum_list (map f p) = sum_mset (image_mset f (mset p))"
    by (simp flip: sum_mset_sum_list)
  also have "\<dots> = sum_mset (image_mset f (mset [0..<n]))"
    by (simp only: is_perm_mset [OF assms])
  also have "\<dots> = sum_list (map f [0..<n])"
    by (simp flip: sum_mset_sum_list)
  finally show ?thesis .
qed

lemma map_perm_upt: "is_perm p n \<Longrightarrow> map f p = map (\<lambda>i. f (p ! i)) [0..<n]"
  by (simp add: is_perm_def list_eq_iff_nth_eq)


lemma mat_permute_sym: "is_perm p n \<Longrightarrow> mat n n (permute_sym p A)"
  by (simp add: is_perm_def permute_sym_def mat_def list_all_iff)

lemma permute_sym_nth:
  "is_perm p n \<Longrightarrow> i < n \<Longrightarrow> j < n \<Longrightarrow> permute_sym p A ! i ! j = A ! (p ! i) ! (p ! j)"
  by (simp add: is_perm_def permute_sym_def)

lemma permute_sym_row_sum:
  assumes p: "is_perm p n" and A: "mat n n A" and i: "i < n"
  shows "sum_list (permute_sym p A ! i) = sum_list (A ! (p ! i))"
proof -
  have pi: "p ! i < n"
    using p i by (rule is_perm_nth)
  have "permute_sym p A ! i = map (\<lambda>j. A ! (p ! i) ! j) p"
    using p i by (simp add: is_perm_def permute_sym_def)
  then have "sum_list (permute_sym p A ! i) = sum_list (map (\<lambda>j. A ! (p ! i) ! j) [0..<n])"
    using sum_list_perm [OF p] by simp
  also have "map (\<lambda>j. A ! (p ! i) ! j) [0..<n] = A ! (p ! i)"
    using mat_row [OF A pi] by (simp add: list_eq_iff_nth_eq)
  finally show ?thesis .
qed

lemma permute_sym_map_upt:
  assumes p: "is_perm p n"
  shows "permute_sym p (map (\<lambda>i. map (f i) [0..<n]) [0..<n])
         = map (\<lambda>i. map (\<lambda>j. f (p ! i) (p ! j)) [0..<n]) [0..<n]"
proof -
  have "permute_sym p (map (\<lambda>i. map (f i) [0..<n]) [0..<n])
        = map (\<lambda>i. map (\<lambda>j. map (\<lambda>i. map (f i) [0..<n]) [0..<n] ! (p ! i) ! (p ! j)) [0..<n])
              [0..<n]"
    unfolding permute_sym_def
    by (simp only: map_perm_upt [OF p])
  also have "\<dots> = map (\<lambda>i. map (\<lambda>j. f (p ! i) (p ! j)) [0..<n]) [0..<n]"
    using is_perm_nth [OF p] by (intro map_upt_cong) simp
  finally show ?thesis .
qed

lemma list_ex_perm:
  assumes p: "is_perm p n"
  shows "list_ex (\<lambda>i. P (p ! i)) [0..<n] = list_ex P [0..<n]"
proof -
  have "list_ex (\<lambda>i. P (p ! i)) [0..<n] = list_ex P (map (\<lambda>i. p ! i) [0..<n])"
    by (simp add: list_ex_iff)
  also have "map (\<lambda>i. p ! i) [0..<n] = p"
    using p by (simp add: is_perm_def list_eq_iff_nth_eq)
  also have "list_ex P p = list_ex P [0..<n]"
    using is_perm_set [OF p] by (simp add: list_ex_iff)
  finally show ?thesis .
qed

lemma norm_init_permuted:
  assumes p: "is_perm p n" and A: "mat n n A"
  shows "map_sum id adj_norm
           (GCNLayer_norm_init (permute_sym p A) idim odim (permute_sym p A) W b)
         = map_sum id (\<lambda>l. permute_sym p (adj_norm l))
             (GCNLayer_norm_init A idim odim A W b)"
proof -
  let ?A = "permute_sym p A"
  let ?s = "\<lambda>i. sum_list (A ! i)"
  have A': "mat n n ?A"
    using p by (rule mat_permute_sym)
  have nr: "nrows A = n" "nrows ?A = n"
    using A A' by (simp_all add: nrows_def mat_def)
  have ex: "list_ex (\<lambda>i. sqrt (sum_list (?A ! i)) = 0) [0..<n]
            = list_ex (\<lambda>i. sqrt (?s i) = 0) [0..<n]"
  proof -
    have "list_ex (\<lambda>i. sqrt (sum_list (?A ! i)) = 0) [0..<n]
          = list_ex (\<lambda>i. sqrt (?s (p ! i)) = 0) [0..<n]"
      using permute_sym_row_sum [OF p A] by (simp add: list_ex_iff)
    also have "\<dots> = list_ex (\<lambda>i. sqrt (?s i) = 0) [0..<n]"
      using p by (rule list_ex_perm)
    finally show ?thesis .
  qed
  have N: "map (\<lambda>i. map (\<lambda>j. 1 / sqrt (sum_list (?A ! i))
                                 * (?A ! i ! j + (if i = j then 1 else 0))
                                 * (1 / sqrt (sum_list (?A ! j)))) [0..<n]) [0..<n]
           = permute_sym p (map (\<lambda>i. map (\<lambda>j. 1 / sqrt (?s i)
                                 * (A ! i ! j + (if i = j then 1 else 0))
                                 * (1 / sqrt (?s j))) [0..<n]) [0..<n])"
    unfolding permute_sym_map_upt [OF p]
    by (intro map_upt_cong)
       (simp add: permute_sym_row_sum [OF p A] permute_sym_nth [OF p] is_perm_inj [OF p])
  show ?thesis
    unfolding GCNLayer_norm_init_closed [OF A' nr(2)] GCNLayer_norm_init_closed [OF A nr(1)] ex N
    by simp
qed

lemma matmul_permuted:
  assumes p: "is_perm p n" and N: "mat n n N" and X: "mat n d X"
  shows "matmul (permute_sym p N) (permute_rows p X)
         = map_sum id (permute_rows p) (matmul N X)"
proof (cases "n = 0")
  case True
  with p N X show ?thesis
    by (simp add: is_perm_def mat_def matmul_def permute_sym_def permute_rows_def)
next
  case False
  let ?Y = "map (\<lambda>i. map (\<lambda>j. sum_list (map (\<lambda>k. N ! i ! k * X ! k ! j) [0..<n])) [0..<d])
                [0..<n]"
  have lp: "length p = n"
    using p by (rule is_perm_length)
  have NX: "matmul N X = Inr ?Y"
    using matmul_entries [OF N, of X] mat_length [OF X] mat_ncols [OF X] False by simp
  have X': "mat n d (permute_rows p X)"
    using X p is_perm_nth [OF p]
    by (simp add: permute_rows_def mat_def list_all_length is_perm_def)
  have "matmul (permute_sym p N) (permute_rows p X)
        = Inr (map (\<lambda>i. map (\<lambda>j. sum_list (map (\<lambda>k. permute_sym p N ! i ! k
                                                       * permute_rows p X ! k ! j) [0..<n]))
                              [0..<d]) [0..<n])"
    using matmul_entries [OF mat_permute_sym [OF p], of "permute_rows p X" N]
      mat_length [OF X'] mat_ncols [OF X'] False by simp
  also have "\<dots> = Inr (map (\<lambda>i. ?Y ! (p ! i)) [0..<n])"
  proof (intro arg_cong [where f = Inr] map_upt_cong)
    fix i assume i: "i < n"
    have pi: "p ! i < n"
      using p i by (rule is_perm_nth)
    have "map (\<lambda>j. sum_list (map (\<lambda>k. permute_sym p N ! i ! k * permute_rows p X ! k ! j)
                               [0..<n])) [0..<d]
          = map (\<lambda>j. sum_list (map (\<lambda>k. N ! (p ! i) ! k * X ! k ! j) [0..<n])) [0..<d]"
    proof (intro map_upt_cong)
      fix j assume "j < d"
      have "sum_list (map (\<lambda>k. permute_sym p N ! i ! k * permute_rows p X ! k ! j) [0..<n])
            = sum_list (map (\<lambda>k. N ! (p ! i) ! (p ! k) * X ! (p ! k) ! j) [0..<n])"
        using i lp by (intro sum_list_upt_cong)
          (simp add: permute_sym_nth [OF p] permute_rows_def)
      also have "\<dots> = sum_list (map (\<lambda>k. N ! (p ! i) ! k * X ! k ! j) p)"
        by (simp only: map_perm_upt [OF p])
      also have "\<dots> = sum_list (map (\<lambda>k. N ! (p ! i) ! k * X ! k ! j) [0..<n])"
        using p by (rule sum_list_perm)
      finally show "sum_list (map (\<lambda>k. permute_sym p N ! i ! k * permute_rows p X ! k ! j)
                                [0..<n])
                    = sum_list (map (\<lambda>k. N ! (p ! i) ! k * X ! k ! j) [0..<n])" .
    qed
    then show "map (\<lambda>j. sum_list (map (\<lambda>k. permute_sym p N ! i ! k
                                           * permute_rows p X ! k ! j) [0..<n])) [0..<d]
               = ?Y ! (p ! i)"
      using pi by simp
  qed
  also have "map (\<lambda>i. ?Y ! (p ! i)) [0..<n] = permute_rows p ?Y"
    unfolding permute_rows_def by (simp only: map_perm_upt [OF p])
  finally show ?thesis
    by (simp add: NX)
qed

lemma Linear_forward_permuted:
  assumes p: "is_perm p (length Y)"
  shows "Linear_forward L (permute_rows p Y) = map_sum id (permute_rows p) (Linear_forward L Y)"
proof -
  have set_eq: "set (permute_rows p Y) = set Y"
  proof -
    have "set (permute_rows p Y) = (\<lambda>i. Y ! i) ` set p"
      by (simp add: permute_rows_def)
    also have "\<dots> = (\<lambda>i. Y ! i) ` {0..<length Y}"
      by (simp only: is_perm_set [OF p])
    also have "\<dots> = set Y"
      by (auto simp: set_conv_nth)
    finally show ?thesis .
  qed
  have chk: "list_all Q (permute_rows p Y) = list_all Q Y" for Q
    by (simp add: list_all_iff set_eq)
  have "map f (permute_rows p Y) = permute_rows p (map f Y)" for f :: "real list \<Rightarrow> real list"
    using is_perm_nth [OF p] is_perm_length [OF p]
    by (simp add: permute_rows_def list_eq_iff_nth_eq)
  then show ?thesis
    by (simp add: Linear_forward_def chk)
qed


lemma norm_init_linear_layer:
  "GCNLayer_norm_init adj idim odim A W b = Inr l \<Longrightarrow>
     linear_layer l = \<lparr>in_features = idim, out_features = odim, weight = W, bias = b\<rparr>"
  by (auto simp: GCNLayer_norm_init_def split: sum.splits)

lemma norm_init_mat:
  assumes "mat n n A" "GCNLayer_norm_init A idim odim A W b = Inr l"
  shows "mat n n (adj_norm l)"
proof -
  have "nrows A = n"
    using assms(1) by (simp add: nrows_def mat_def)
  from GCNLayer_norm_init_closed [OF assms(1) this, of idim odim W b] assms(2)
  have "adj_norm l = map (\<lambda>i. map (\<lambda>j. 1 / sqrt (sum_list (A ! i))
                                  * (A ! i ! j + (if i = j then 1 else 0))
                                  * (1 / sqrt (sum_list (A ! j)))) [0..<n]) [0..<n]"
    by (auto split: if_splits)
  then show ?thesis
    by (simp add: mat_map_upt)
qed

text \<open>
  When the global \<^verbatim>\<open>adj\<close> is permuted together with the argument, the layer is
  equivariant: built from \<open>P A P\<^sup>T\<close> and applied to \<open>P X\<close> it returns the permutation \<open>P\<close>
  of what the layer built from \<open>A\<close> returns on \<open>X\<close>, and raises exactly when that one does.
\<close>

lemma norm_layer_equivariant_tied:
  assumes p: "is_perm p n" and A: "mat n n A" and X: "mat n d X"
  shows "GCNLayer_norm_apply (permute_sym p A) idim odim (permute_sym p A) W b
           (permute_rows p X)
         = map_sum id (permute_rows p) (GCNLayer_norm_apply A idim odim A W b X)"
proof -
  let ?A = "permute_sym p A"
  note ini = norm_init_permuted [OF p A, of idim odim W b]
  show ?thesis
  proof (cases "GCNLayer_norm_init A idim odim A W b")
    case (Inl e)
    with ini have "GCNLayer_norm_init ?A idim odim ?A W b = Inl e"
      by (cases "GCNLayer_norm_init ?A idim odim ?A W b") simp_all
    with Inl show ?thesis
      by (simp add: GCNLayer_norm_apply_def)
  next
    case (Inr l)
    with ini obtain l' where l': "GCNLayer_norm_init ?A idim odim ?A W b = Inr l'"
      and an: "adj_norm l' = permute_sym p (adj_norm l)"
      by (cases "GCNLayer_norm_init ?A idim odim ?A W b") simp_all
    have lin: "linear_layer l' = linear_layer l"
      using norm_init_linear_layer [OF l'] norm_init_linear_layer [OF Inr] by simp
    have N: "mat n n (adj_norm l)"
      using A Inr by (rule norm_init_mat)
    have mm: "matmul (permute_sym p (adj_norm l)) (permute_rows p X)
              = map_sum id (permute_rows p) (matmul (adj_norm l) X)"
      using p N X by (rule matmul_permuted)
    show ?thesis
    proof (cases "matmul (adj_norm l) X")
      case (Inl e)
      then show ?thesis
        by (simp add: GCNLayer_norm_apply_def GCNLayer_norm_forward_def l' Inr an mm)
    next
      case Y: (Inr Y)
      then have "length Y = n"
        using mat_length [OF N] by (auto simp: matmul_def split: if_splits)
      with p have "is_perm p (length Y)"
        by simp
      then have "Linear_forward (linear_layer l) (permute_rows p Y)
                 = map_sum id (permute_rows p) (Linear_forward (linear_layer l) Y)"
        by (rule Linear_forward_permuted)
      then show ?thesis
        by (simp add: GCNLayer_norm_apply_def GCNLayer_norm_forward_def l' Inr an mm Y lin)
    qed
  qed
qed

text \<open>
  Claim C7. The specification states that the layer applied to the permuted inputs
  \<open>(P A P\<^sup>T, P X)\<close> returns \<open>P\<close> applied to its output on \<open>(A, X)\<close>. The constructor ignores
  its argument \<open>A\<close> (documented as the adjacency matrix) and normalises the global
  \<^verbatim>\<open>adj\<close>: with \<^verbatim>\<open>adj\<close> the graph of the two edges \<open>0-1\<close> and \<open>2-3\<close>, the layer built
  from the permuted adjacency and applied to the permuted features returns
  \<open>[[4], [4], [6], [6]]\<close>, while the permuted output of the layer on the original inputs
  is \<open>[[7], [3], [7], [3]]\<close>.
\<close>

theorem permuted_argument_not_equivariant:
  "is_perm [2, 0, 3, 1] 4
   \<and> GCNLayer_norm_apply [[0, 1, 0, 0], [1, 0, 0, 0], [0, 0, 0, 1], [0, 0, 1, 0]] 1 1
        (permute_sym [2, 0, 3, 1] [[0, 1, 0, 0], [1, 0, 0, 0], [0, 0, 0, 1], [0, 0, 1, 0]])
        [[1]] [0] (permute_rows [2, 0, 3, 1] [[1], [2], [3], [4]])
       = Inr [[4], [4], [6], [6]]
   \<and> map_sum id (permute_rows [2, 0, 3, 1])
        (GCNLayer_norm_apply [[0, 1, 0, 0], [1, 0, 0, 0], [0, 0, 0, 1], [0, 0, 1, 0]] 1 1
           [[0, 1, 0, 0], [1, 0, 0, 0], [0, 0, 0, 1], [0, 0, 1, 0]] [[1]] [0]
           [[1], [2], [3], [4]])
       = Inr [[7], [3], [7], [3]]"
  by (simp add: is_perm_def permute_sym_def permute_rows_def GCNLayer_norm_apply_def
      GCNLayer_norm_forward_def Linear_forward_def GCNLayer_norm_init_def tadd_def bdim_def
      bidx_def eye_def inverse_t_def sqrt_t_def diag_def sum_axis1_def matmul_def nrows_def
      ncols_def upt_conv_Cons)

end
